theory Spec2Isabelle
  imports Main "HOL-Library.AList" "HOL-Library.Sublist"
begin

section \<open>JSON-compatible values\<close>

text \<open>
  Requests, responses and variable values are what \<^verbatim>\<open>json.loads\<close> and
  \<^verbatim>\<open>yaml.safe_load\<close> return: \<^verbatim>\<open>None\<close>, booleans, integers, floats, strings, lists
  and dicts with string keys. A dict is an association list in insertion order (a Python
  dict has no repeated key). Floats are opaque: no function of the session manager
  computes with them. A string is a list of 8-bit characters, read as the code points
  below 256; the character classes below are Python's on that range. Integers are those
  the parsers deliver, which \<^verbatim>\<open>str\<close> prints without error.
\<close>

typedecl pyfloat

instantiation pyfloat :: equal
begin
definition equal_pyfloat :: "pyfloat \<Rightarrow> pyfloat \<Rightarrow> bool" where
  "equal_pyfloat x y = (x = y)"
instance
  by standard (simp add: equal_pyfloat_def)
end

datatype json =
    JNull
  | JBool bool
  | JInt int
  | JFloat pyfloat
  | JStr string
  | JList "json list"
  | JDict "(string \<times> json) list"

text \<open>The exceptions the modelled functions can raise.\<close>

datatype py_error = ValueError | IndexError

text \<open>
  The Variable Store, \<^verbatim>\<open>self.variables: dict[str, Any]\<close>. Assignment
  \<^verbatim>\<open>d[k] = v\<close> is \<^const>\<open>AList.update\<close>: an existing key keeps its place, a new
  one goes last.
\<close>

type_synonym store = "(string \<times> json) list"

section \<open>String helpers\<close>

text \<open>
  \<^verbatim>\<open>str.isspace\<close>, the whitespace that \<^verbatim>\<open>str.strip()\<close> removes: tab, newline,
  vertical tab, form feed, carriage return (0x09..0x0d), the four separators 0x1c..0x1f,
  space, next line (0x85) and no-break space (0xa0).
\<close>

definition is_space :: "char \<Rightarrow> bool" where
  "is_space c =
     (let n = (of_char c :: nat) in
      (9 \<le> n \<and> n \<le> 13) \<or> (28 \<le> n \<and> n \<le> 32) \<or> n = 133 \<or> n = 160)"

text \<open>
  The whitespace that \<^verbatim>\<open>int()\<close> skips around a literal. CPython first turns every
  whitespace character from code point 127 on into a space (here 0x85 and 0xa0), then
  skips the C whitespace 0x09..0x0d and space: the separators 0x1c..0x1f are not skipped.
\<close>

definition is_int_space :: "char \<Rightarrow> bool" where
  "is_int_space c =
     (let n = (of_char c :: nat) in (9 \<le> n \<and> n \<le> 13) \<or> n = 32 \<or> n = 133 \<or> n = 160)"

definition is_digit :: "char \<Rightarrow> bool" where
  "is_digit c = (let n = (of_char c :: nat) in 48 \<le> n \<and> n \<le> 57)"

definition digit_val :: "char \<Rightarrow> nat" where
  "digit_val c = of_char c - 48"

text \<open>Dropping the characters of a class at both ends; \<^verbatim>\<open>s.strip()\<close> drops whitespace.\<close>

definition strip_with :: "(char \<Rightarrow> bool) \<Rightarrow> string \<Rightarrow> string" where
  "strip_with P s = rev (dropWhile P (rev (dropWhile P s)))"

definition strip :: "string \<Rightarrow> string" where
  "strip s = strip_with is_space s"

text \<open>\<^verbatim>\<open>s.split(sep)\<close> for a one-character separator: never the empty list.\<close>

fun split_on :: "char \<Rightarrow> string \<Rightarrow> string list" where
  "split_on sep [] = [[]]"
| "split_on sep (c # cs) =
     (if c = sep then [] # split_on sep cs
      else (case split_on sep cs of
              [] \<Rightarrow> [[c]]
            | w # ws \<Rightarrow> (c # w) # ws))"

text \<open>\<^verbatim>\<open>sep.join(ss)\<close>\<close>

fun join_str :: "string \<Rightarrow> string list \<Rightarrow> string" where
  "join_str sep [] = []"
| "join_str sep [s] = s"
| "join_str sep (s # t # ts) = s @ sep @ join_str sep (t # ts)"

text \<open>
  \<^verbatim>\<open>int(s)\<close> in base ten: surrounding whitespace is skipped, one sign is allowed, then
  digits, with single underscores between digits. \<open>None\<close> is \<^verbatim>\<open>ValueError\<close>, which
  CPython (3.11, and the releases that took the change) also raises for a literal of more
  digits than \<^verbatim>\<open>sys.get_int_max_str_digits()\<close>, 4300 unless configured; zeros in front
  count, underscores do not.
\<close>

definition int_max_str_digits :: nat where
  "int_max_str_digits = 4300"

fun int_digits :: "bool \<Rightarrow> nat \<Rightarrow> string \<Rightarrow> nat option" where
  "int_digits after_digit acc [] = (if after_digit then Some acc else None)"
| "int_digits after_digit acc (c # cs) =
     (if is_digit c then int_digits True (10 * acc + digit_val c) cs
      else if c = CHR ''_'' \<and> after_digit then int_digits False acc cs
      else None)"

definition int_literal :: "string \<Rightarrow> nat option" where
  "int_literal cs =
     (if int_max_str_digits < length (filter is_digit cs) then None
      else int_digits False 0 cs)"

definition py_int :: "string \<Rightarrow> int option" where
  "py_int s =
     (case strip_with is_int_space s of
        [] \<Rightarrow> None
      | c # cs \<Rightarrow>
          if c = CHR ''-'' then map_option (\<lambda>n. - int n) (int_literal cs)
          else if c = CHR ''+'' then map_option int (int_literal cs)
          else map_option int (int_literal (c # cs)))"

text \<open>\<^verbatim>\<open>s.index(c)\<close>: the position of the first \<open>c\<close>; \<open>None\<close> is \<^verbatim>\<open>ValueError\<close>.\<close>

definition index_of :: "char \<Rightarrow> string \<Rightarrow> nat option" where
  "index_of c s = (if c \<in> set s then Some (length (takeWhile (\<lambda>x. x \<noteq> c) s)) else None)"

section \<open>Path language: \<^verbatim>\<open>_parse_path\<close> and \<^verbatim>\<open>extract_value\<close>\<close>

text \<open>A parsed path is a list of keys (\<^verbatim>\<open>str\<close>) and indices (\<^verbatim>\<open>int\<close>).\<close>

datatype part = PKey string | PIdx int

text \<open>
  One round of the loop of \<^verbatim>\<open>_parse_path\<close>. A segment with a \<^verbatim>\<open>[\<close> gives its
  base (when not empty) and the integer between the first \<^verbatim>\<open>[\<close> and the first
  \<^verbatim>\<open>]\<close>; \<^verbatim>\<open>segment.index("]")\<close> and \<^verbatim>\<open>int(idx_str)\<close> raise \<^verbatim>\<open>ValueError\<close>.
  The slice \<^verbatim>\<open>segment[i + 1 : j]\<close> is empty when \<open>j \<le> i + 1\<close>.
\<close>

definition parse_segment :: "string \<Rightarrow> py_error + part list" where
  "parse_segment segment =
     (case index_of CHR ''['' segment of
        None \<Rightarrow> Inr [PKey segment]
      | Some i \<Rightarrow>
          (let base = take i segment in
           case index_of CHR '']'' segment of
             None \<Rightarrow> Inl ValueError
           | Some j \<Rightarrow>
               (case py_int (take (j - (i + 1)) (drop (i + 1) segment)) of
                  None \<Rightarrow> Inl ValueError
                | Some n \<Rightarrow> Inr ((if base \<noteq> [] then [PKey base] else []) @ [PIdx n]))))"

fun parse_segments :: "string list \<Rightarrow> py_error + part list" where
  "parse_segments [] = Inr []"
| "parse_segments (segment # segments) =
     (case parse_segment segment of
        Inl e \<Rightarrow> Inl e
      | Inr ps \<Rightarrow>
          (case parse_segments segments of
             Inl e \<Rightarrow> Inl e
           | Inr qs \<Rightarrow> Inr (ps @ qs)))"

definition parse_path :: "string \<Rightarrow> py_error + part list" where
  "parse_path path = parse_segments (split_on CHR ''.'' path)"

text \<open>
  The loop of \<^verbatim>\<open>extract_value\<close>. Its \<^verbatim>\<open>return None\<close> is the value \<^const>\<open>JNull\<close>:
  Python has one \<^verbatim>\<open>None\<close>, for "not found" and for a JSON null alike. The guard
  \<^verbatim>\<open>len(current) > part\<close> lets a negative index through; \<^verbatim>\<open>current[part]\<close> then
  counts from the end and raises \<^verbatim>\<open>IndexError\<close> below \<open>- len(current)\<close>.
\<close>

fun walk :: "json \<Rightarrow> part list \<Rightarrow> py_error + json" where
  "walk current [] = Inr current"
| "walk current (PIdx i # parts) =
     (case current of
        JList xs \<Rightarrow>
          if int (length xs) > i then
            (if 0 \<le> i then walk (xs ! nat i) parts
             else if - int (length xs) \<le> i then walk (xs ! nat (int (length xs) + i)) parts
             else Inl IndexError)
          else Inr JNull
      | _ \<Rightarrow> Inr JNull)"
| "walk current (PKey k # parts) =
     (case current of
        JDict kvs \<Rightarrow>
          (case map_of kvs k of
             Some v \<Rightarrow> walk v parts
           | None \<Rightarrow> Inr JNull)
      | _ \<Rightarrow> Inr JNull)"

text \<open>\<^verbatim>\<open>if eval_path.startswith("body."): eval_path = eval_path[5:]\<close>\<close>

definition strip_body_prefix :: "string \<Rightarrow> string" where
  "strip_body_prefix eval_path =
     (if prefix ''body.'' eval_path then drop 5 eval_path else eval_path)"

definition extract_value :: "json \<Rightarrow> string \<Rightarrow> py_error + json" where
  "extract_value response eval_path =
     (case parse_path (strip_body_prefix eval_path) of
        Inl e \<Rightarrow> Inl e
      | Inr parts \<Rightarrow> walk response parts)"

text \<open>
  The path grammar of the specification, for comparison with the code: a path is a
  non-empty list of segments joined by dots; a segment is a bare key, or a key followed by
  \<^verbatim>\<open>[idx]\<close> with \<open>idx\<close> a non-empty string of at most 4300 digits (an empty key
  before the bracket indexes the current value). Keys hold none of the characters
  \<^verbatim>\<open>. [ ]\<close>.
\<close>

datatype segment = Key string | KeyIdx string string

definition key_ok :: "string \<Rightarrow> bool" where
  "key_ok k = (CHR ''.'' \<notin> set k \<and> CHR ''['' \<notin> set k \<and> CHR '']'' \<notin> set k)"

fun wf_segment :: "segment \<Rightarrow> bool" where
  "wf_segment (Key k) = key_ok k"
| "wf_segment (KeyIdx k ds) =
     (key_ok k \<and> ds \<noteq> [] \<and> list_all is_digit ds \<and> length ds \<le> int_max_str_digits)"

fun segment_text :: "segment \<Rightarrow> string" where
  "segment_text (Key k) = k"
| "segment_text (KeyIdx k ds) = k @ ''['' @ ds @ '']''"

definition path_text :: "segment list \<Rightarrow> string" where
  "path_text segs = join_str ''.'' (map segment_text segs)"

definition digits_value :: "string \<Rightarrow> nat" where
  "digits_value ds = foldl (\<lambda>acc c. 10 * acc + digit_val c) 0 ds"

fun segment_parts :: "segment \<Rightarrow> part list" where
  "segment_parts (Key k) = [PKey k]"
| "segment_parts (KeyIdx k ds) =
     (if k \<noteq> [] then [PKey k] else []) @ [PIdx (int (digits_value ds))]"

definition path_parts :: "segment list \<Rightarrow> part list" where
  "path_parts segs = concat (map segment_parts segs)"

text \<open>The indices of the specification's grammar are not negative.\<close>

fun nonneg_parts :: "part list \<Rightarrow> bool" where
  "nonneg_parts [] = True"
| "nonneg_parts (PKey k # ps) = nonneg_parts ps"
| "nonneg_parts (PIdx i # ps) = (0 \<le> i \<and> nonneg_parts ps)"

text \<open>
  The specification's resolution: walk the structure part by part; a key absent from a
  mapping, an index outside the sequence, or a value of the wrong kind ends it with "not
  found" (\<open>None\<close>).
\<close>

fun addressed :: "json \<Rightarrow> part list \<Rightarrow> json option" where
  "addressed v [] = Some v"
| "addressed v (PKey k # ps) =
     (case v of
        JDict kvs \<Rightarrow> (case map_of kvs k of Some x \<Rightarrow> addressed x ps | None \<Rightarrow> None)
      | _ \<Rightarrow> None)"
| "addressed v (PIdx i # ps) =
     (case v of
        JList xs \<Rightarrow> if 0 \<le> i \<and> i < int (length xs) then addressed (xs ! nat i) ps else None
      | _ \<Rightarrow> None)"

section \<open>Extraction: \<^verbatim>\<open>extract_and_save\<close>\<close>

text \<open>
  A \<^verbatim>\<open>save_config\<close> has the documented shape
  \<^verbatim>\<open>{"placeholder": [{"key": "cluster_1", "eval": "body.clusterId"}]}\<close>. An entry may
  lack its key or its eval (\<^verbatim>\<open>p.get\<close> gives \<^verbatim>\<open>None\<close>); the dict may lack
  \<^verbatim>\<open>"placeholder"\<close>, and is then the empty dict.
\<close>

record placeholder =
  p_key :: "string option"
  p_eval :: "string option"

datatype save_config = SaveConfig "placeholder list option"

text \<open>
  The loop of \<^verbatim>\<open>extract_and_save\<close>, on \<^verbatim>\<open>self.variables\<close> and the local
  \<^verbatim>\<open>saved\<close>. The store is mutated as the loop goes, so an exception leaves behind what
  earlier entries wrote: the store is returned in both cases.
\<close>

fun save_loop :: "json \<Rightarrow> placeholder list \<Rightarrow> store \<Rightarrow> store \<Rightarrow> store \<times> (py_error + store)" where
  "save_loop response [] vars saved = (vars, Inr saved)"
| "save_loop response (p # ps) vars saved =
     (case (p_key p, p_eval p) of
        (Some k, Some eval_path) \<Rightarrow>
          if k \<noteq> [] \<and> eval_path \<noteq> [] then
            (case extract_value response eval_path of
               Inl e \<Rightarrow> (vars, Inl e)
             | Inr JNull \<Rightarrow> save_loop response ps vars saved
             | Inr v \<Rightarrow> save_loop response ps (AList.update k v vars) (AList.update k v saved))
          else save_loop response ps vars saved
      | _ \<Rightarrow> save_loop response ps vars saved)"

text \<open>\<^verbatim>\<open>if not save_config: return saved\<close> covers \<^verbatim>\<open>None\<close> and the empty dict.\<close>

definition extract_and_save :: "store \<Rightarrow> json \<Rightarrow> save_config option \<Rightarrow> store \<times> (py_error + store)" where
  "extract_and_save vars response save_cfg =
     (case save_cfg of
        None \<Rightarrow> (vars, Inr [])
      | Some (SaveConfig None) \<Rightarrow> (vars, Inr [])
      | Some (SaveConfig (Some ps)) \<Rightarrow> save_loop response ps vars [])"

section \<open>Redaction: \<^verbatim>\<open>redact_sensitive_values\<close>\<close>

text \<open>ASCII character classes, as in the patterns \<^verbatim>\<open>[A-Z]\<close>, \<^verbatim>\<open>[a-z0-9]\<close>, \<^verbatim>\<open>[A-Za-z0-9_]\<close>.\<close>

definition is_upper :: "char \<Rightarrow> bool" where
  "is_upper c = (let n = (of_char c :: nat) in 65 \<le> n \<and> n \<le> 90)"

definition is_lower :: "char \<Rightarrow> bool" where
  "is_lower c = (let n = (of_char c :: nat) in 97 \<le> n \<and> n \<le> 122)"

definition is_alnum :: "char \<Rightarrow> bool" where
  "is_alnum c = (is_upper c \<or> is_lower c \<or> is_digit c)"

definition is_word :: "char \<Rightarrow> bool" where
  "is_word c = (is_alnum c \<or> c = CHR ''_'')"

text \<open>
  \<^verbatim>\<open>s.lower()\<close>: the letters A to Z, and the capital letters 0xc0..0xde of Latin-1
  (0xd7, the multiplication sign, is none), whose small letters lie 32 further.
\<close>

definition to_lower :: "char \<Rightarrow> char" where
  "to_lower c =
     (case map_of (zip ''ABCDEFGHIJKLMNOPQRSTUVWXYZ'' ''abcdefghijklmnopqrstuvwxyz'') c of
        Some l \<Rightarrow> l
      | None \<Rightarrow>
          (let n = (of_char c :: nat) in
           if 192 \<le> n \<and> n \<le> 222 \<and> n \<noteq> 215 then char_of (n + 32) else c))"

definition lower :: "string \<Rightarrow> string" where
  "lower s = map to_lower s"

text \<open>\<^verbatim>\<open>s.strip(ch)\<close> for one character.\<close>

definition strip_chars :: "char \<Rightarrow> string \<Rightarrow> string" where
  "strip_chars ch s = rev (dropWhile (\<lambda>c. c = ch) (rev (dropWhile (\<lambda>c. c = ch) s)))"

text \<open>\<^verbatim>\<open>sub in s\<close>\<close>

fun contains :: "string \<Rightarrow> string \<Rightarrow> bool" where
  "contains sub [] = (sub = [])"
| "contains sub (c # cs) = (prefix sub (c # cs) \<or> contains sub cs)"

text \<open>
  \<^verbatim>\<open>_SENSITIVE_KEY_RE.search(k)\<close>, the pattern
  \<^verbatim>\<open>(password|private[_-]?key|token|secret|pwd)\<close> with \<^verbatim>\<open>re.IGNORECASE\<close>: one of the
  fragments occurs in the key, whatever the case of its letters.
\<close>

definition sensitive_key :: "string \<Rightarrow> bool" where
  "sensitive_key k =
     (let l = lower k in
      contains ''password'' l \<or> contains ''privatekey'' l \<or> contains ''private_key'' l
      \<or> contains ''private-key'' l \<or> contains ''token'' l \<or> contains ''secret'' l
      \<or> contains ''pwd'' l)"

text \<open>
  \<^verbatim>\<open>_PLACEHOLDER_VALUE_RE.match(v)\<close>, the pattern \<^verbatim>\<open>^\{[A-Za-z0-9_]+\}$\<close>: a brace,
  one or more word characters, a brace, then the end of the string or a last newline
  (\<^verbatim>\<open>$\<close> matches before it).
\<close>

definition placeholder_value :: "string \<Rightarrow> bool" where
  "placeholder_value v =
     (case v of
        [] \<Rightarrow> False
      | c # cs \<Rightarrow>
          c = CHR ''{'' \<and> takeWhile is_word cs \<noteq> []
          \<and> (dropWhile is_word cs = ''}'' \<or> dropWhile is_word cs = [CHR ''}'', CHR 0x0A]))"

text \<open>\<^verbatim>\<open>re.sub(r"[^A-Za-z0-9]+", "_", key)\<close>: every run of other characters becomes one underscore.\<close>

function collapse_non_alnum :: "string \<Rightarrow> string" where
  "collapse_non_alnum [] = []"
| "collapse_non_alnum (c # cs) =
     (if is_alnum c then c # collapse_non_alnum cs
      else CHR ''_'' # collapse_non_alnum (dropWhile (\<lambda>x. \<not> is_alnum x) cs))"
  by pat_completeness auto
termination
  by (relation "measure length") (auto simp: length_dropWhile_le less_Suc_eq_le)

text \<open>
  \<^verbatim>\<open>re.sub(r"([a-z0-9])([A-Z])", r"\1_\2", key)\<close>: matches are found left to right and do
  not overlap.
\<close>

fun split_camel :: "string \<Rightarrow> string" where
  "split_camel (a # b # cs) =
     (if (is_lower a \<or> is_digit a) \<and> is_upper b then a # CHR ''_'' # b # split_camel cs
      else a # split_camel (b # cs))"
| "split_camel cs = cs"

text \<open>\<^verbatim>\<open>_to_placeholder_name\<close>; \<^verbatim>\<open>key or "redacted"\<close> replaces the empty string.\<close>

definition to_placeholder_name :: "string \<Rightarrow> string" where
  "to_placeholder_name k =
     (let k1 = collapse_non_alnum k;
          k2 = split_camel k1;
          k3 = lower (strip_chars CHR ''_'' k2)
      in if k3 = [] then ''redacted'' else k3)"

text \<open>
  \<^verbatim>\<open>redact_sensitive_values\<close>: under a sensitive key a placeholder-shaped string is
  kept and anything else is replaced; under any other key the value is redacted in turn.
\<close>

fun redact_sensitive_values :: "json \<Rightarrow> json" where
  "redact_sensitive_values (JDict kvs) =
     JDict (map (\<lambda>(k, v).
        if sensitive_key k then
          (case v of
             JStr s \<Rightarrow> if placeholder_value s then (k, v)
                       else (k, JStr (''{'' @ to_placeholder_name k @ ''}''))
           | _ \<Rightarrow> (k, JStr (''{'' @ to_placeholder_name k @ ''}'')))
        else (k, redact_sensitive_values v)) kvs)"
| "redact_sensitive_values (JList xs) = JList (map redact_sensitive_values xs)"
| "redact_sensitive_values v = v"

text \<open>No key of the structure, at any depth, is sensitive.\<close>

fun no_sensitive_keys :: "json \<Rightarrow> bool" where
  "no_sensitive_keys (JDict kvs) = list_all (\<lambda>(k, v). \<not> sensitive_key k \<and> no_sensitive_keys v) kvs"
| "no_sensitive_keys (JList xs) = list_all no_sensitive_keys xs"
| "no_sensitive_keys v = True"

text \<open>What \<^const>\<open>redact_sensitive_values\<close> puts under the key \<open>k\<close> of a dict that held \<open>v\<close> there.\<close>

definition redact_entry :: "string \<Rightarrow> json \<Rightarrow> json" where
  "redact_entry k v =
     (if sensitive_key k then
        (case v of
           JStr s \<Rightarrow> if placeholder_value s then v else JStr (''{'' @ to_placeholder_name k @ ''}'')
         | _ \<Rightarrow> JStr (''{'' @ to_placeholder_name k @ ''}''))
      else redact_sensitive_values v)"

section \<open>Substitution: \<^verbatim>\<open>substitute_variables\<close> and \<^verbatim>\<open>find_required_variables\<close>\<close>

text \<open>
  \<^verbatim>\<open>re.findall(r"\{([^}]+)\}", s)\<close>: at an opening brace the match takes every character
  up to the next closing brace and needs at least one; the scan goes on behind a match,
  and at the next character where there is none. A name may hold opening braces.
\<close>

function find_tokens :: "string \<Rightarrow> string list" where
  "find_tokens [] = []"
| "find_tokens (c # cs) =
     (if c = CHR ''{'' \<and> CHR ''}'' \<in> set cs \<and> takeWhile (\<lambda>x. x \<noteq> CHR ''}'') cs \<noteq> []
      then takeWhile (\<lambda>x. x \<noteq> CHR ''}'') cs # find_tokens (tl (dropWhile (\<lambda>x. x \<noteq> CHR ''}'') cs))
      else find_tokens cs)"
  by pat_completeness auto
termination
proof (relation "measure length")
  show "wf (measure length)" by simp
next
  fix c :: char and cs :: string
  have "length (tl (dropWhile (\<lambda>x. x \<noteq> CHR ''}'') cs)) \<le> length cs"
    using length_dropWhile_le [of "\<lambda>x. x \<noteq> CHR ''}''" cs] by simp
  then show "(tl (dropWhile (\<lambda>x. x \<noteq> CHR ''}'') cs), c # cs) \<in> measure length" by simp
next
  fix c :: char and cs :: string
  show "(cs, c # cs) \<in> measure length" by simp
qed

text \<open>
  \<^verbatim>\<open>result.replace("{" + var_name + "}", new)\<close>: every occurrence, left to right,
  without overlap.
\<close>

function replace_token :: "string \<Rightarrow> string \<Rightarrow> string \<Rightarrow> string" where
  "replace_token var_name new [] = []"
| "replace_token var_name new (c # cs) =
     (if prefix (CHR ''{'' # var_name @ ''}'') (c # cs)
      then new @ replace_token var_name new (drop (length var_name + 1) cs)
      else c # replace_token var_name new cs)"
  by pat_completeness auto
termination
  by (relation "measure (\<lambda>(v, n, s). length s)") auto

text \<open>\<^verbatim>\<open>str\<close> of an integer, in decimal.\<close>

fun str_nat :: "nat \<Rightarrow> string" where
  "str_nat n =
     (if n < 10 then [''0123456789'' ! n]
      else str_nat (n div 10) @ [''0123456789'' ! (n mod 10)])"

declare str_nat.simps [simp del]

definition str_int :: "int \<Rightarrow> string" where
  "str_int i = (if i < 0 then CHR ''-'' # str_nat (nat (- i)) else str_nat (nat i))"

text \<open>
  \<^verbatim>\<open>str(v)\<close>. On a float, a list or a dict it is \<^verbatim>\<open>repr(v)\<close>, which is taken as a
  parameter: the theorems hold whatever it returns.
\<close>

fun py_str :: "(json \<Rightarrow> string) \<Rightarrow> json \<Rightarrow> string" where
  "py_str repr (JStr s) = s"
| "py_str repr JNull = ''None''"
| "py_str repr (JBool b) = (if b then ''True'' else ''False'')"
| "py_str repr (JInt i) = str_int i"
| "py_str repr v = repr v"

text \<open>
  The string case of \<^verbatim>\<open>substitute_variables\<close>: one \<^verbatim>\<open>replace\<close> for each match, in the
  order of the matches, on the result of the one before.
\<close>

definition substitute_str :: "(json \<Rightarrow> string) \<Rightarrow> store \<Rightarrow> string \<Rightarrow> string" where
  "substitute_str repr vars s =
     foldl (\<lambda>result var_name.
        case map_of vars var_name of
          Some v \<Rightarrow> replace_token var_name (py_str repr v) result
        | None \<Rightarrow> result) s (find_tokens s)"

fun substitute_variables :: "(json \<Rightarrow> string) \<Rightarrow> store \<Rightarrow> json \<Rightarrow> json" where
  "substitute_variables repr vars (JStr s) = JStr (substitute_str repr vars s)"
| "substitute_variables repr vars (JDict kvs) =
     JDict (map (\<lambda>(k, v). (k, substitute_variables repr vars v)) kvs)"
| "substitute_variables repr vars (JList xs) = JList (map (substitute_variables repr vars) xs)"
| "substitute_variables repr vars v = v"

text \<open>
  \<^verbatim>\<open>find_required_variables\<close> returns a set: here a list without repetition. Python
  iterates a set in no specified order; the theorems below speak of membership only.
\<close>

fun required_tokens :: "json \<Rightarrow> string list" where
  "required_tokens (JStr s) = find_tokens s"
| "required_tokens (JDict kvs) = concat (map (\<lambda>(k, v). required_tokens v) kvs)"
| "required_tokens (JList xs) = concat (map required_tokens xs)"
| "required_tokens v = []"

definition find_required_variables :: "json \<Rightarrow> string list" where
  "find_required_variables obj = remdups (required_tokens obj)"

text \<open>
  The shape of a string in which every opening brace either has no closing brace behind
  it, or is followed by a name without opening brace that is empty or belongs to \<open>T\<close>.
\<close>

fun tokens_ok :: "string set \<Rightarrow> string \<Rightarrow> bool" where
  "tokens_ok T [] = True"
| "tokens_ok T (c # cs) =
     ((c = CHR ''{'' \<and> CHR ''}'' \<in> set cs \<longrightarrow>
         CHR ''{'' \<notin> set (takeWhile (\<lambda>x. x \<noteq> CHR ''}'') cs)
         \<and> (takeWhile (\<lambda>x. x \<noteq> CHR ''}'') cs = [] \<or> takeWhile (\<lambda>x. x \<noteq> CHR ''}'') cs \<in> T))
      \<and> tokens_ok T cs)"

section \<open>The condition evaluator: \<^verbatim>\<open>_evaluate_expect\<close>\<close>

text \<open>\<^verbatim>\<open>expr.split("==", 1)\<close>: the text before and behind the first \<^verbatim>\<open>==\<close>; \<open>None\<close> when there is none.\<close>

fun split_eq :: "string \<Rightarrow> (string \<times> string) option" where
  "split_eq [] = None"
| "split_eq (c # cs) =
     (if prefix ''=='' (c # cs) then Some ([], drop 1 cs)
      else (case split_eq cs of
              None \<Rightarrow> None
            | Some (l, r) \<Rightarrow> Some (c # l, r)))"

text \<open>The loop over \<^verbatim>\<open>path.split(".")\<close>: mappings only, \<open>None\<close> for \<^verbatim>\<open>return False\<close>.\<close>

fun walk_keys :: "json \<Rightarrow> string list \<Rightarrow> json option" where
  "walk_keys current [] = Some current"
| "walk_keys current (p # ps) =
     (case current of
        JDict kvs \<Rightarrow> (case map_of kvs p of Some v \<Rightarrow> walk_keys v ps | None \<Rightarrow> None)
      | _ \<Rightarrow> None)"

text \<open>The quotes stripped from the literal are \<^verbatim>\<open>'\<close> (0x27), then \<^verbatim>\<open>"\<close> (0x22).\<close>

definition evaluate_expect :: "(json \<Rightarrow> string) \<Rightarrow> json \<Rightarrow> string \<Rightarrow> bool" where
  "evaluate_expect repr body expect =
     (if expect = [] then True
      else (case split_eq (strip expect) of
              None \<Rightarrow> False
            | Some (l, r) \<Rightarrow>
                (let left = strip l; right = strip r in
                 if prefix ''body.'' left then
                   (let path = drop 5 left;
                        expected = strip_chars CHR 0x22 (strip_chars CHR 0x27 (strip right))
                    in case walk_keys body (split_on CHR ''.'' path) of
                         None \<Rightarrow> False
                       | Some current \<Rightarrow> py_str repr current = expected)
                 else False)))"

text \<open>The literal of a condition: the text behind \<^verbatim>\<open>==\<close>, stripped of whitespace, then of quotes.\<close>

definition literal_of :: "string \<Rightarrow> string" where
  "literal_of r = strip_chars CHR 0x22 (strip_chars CHR 0x27 (strip r))"

section \<open>The executor and the world\<close>

text \<open>
  \<^verbatim>\<open>ExecutionResult\<close>, what the executor returns.
\<close>

record execution_result =
  res_success :: bool
  res_status_code :: "int option"
  res_body :: json
  res_error :: "string option"
  res_duration_ms :: int

text \<open>
  What the session manager takes from outside. A call of the executor reads and changes
  the world \<open>'w\<close> (the network, the processes, the clock): the same request may get
  another result the next time, as polling expects. \<^verbatim>\<open>expand_env_vars\<close> reads the process
  environment, \<^verbatim>\<open>time.sleep\<close> lets the world run, and \<^verbatim>\<open>repr\<close> is Python's. The
  theorems hold for every value of this record.
\<close>

record 'w runtime =
  execute_http :: "json \<Rightarrow> 'w \<Rightarrow> execution_result \<times> 'w"
  execute_cli :: "json \<Rightarrow> 'w \<Rightarrow> execution_result \<times> 'w"
  expand_env_vars :: "json \<Rightarrow> json"
  sleep :: "int \<Rightarrow> 'w \<Rightarrow> 'w"
  py_repr :: "json \<Rightarrow> string"

text \<open>\<^verbatim>\<open>SecureExecutor.poll_until_ready\<close>: the loop over \<^verbatim>\<open>range(max_retries)\<close>, with the last result.\<close>

fun poll_loop :: "'w runtime \<Rightarrow> json \<Rightarrow> string \<Rightarrow> int \<Rightarrow> nat \<Rightarrow> execution_result option \<Rightarrow> 'w \<Rightarrow> execution_result \<times> 'w" where
  "poll_loop rt request expect_cel delay_seconds 0 last_result w =
     (case last_result of
        Some r \<Rightarrow> (r, w)
      | None \<Rightarrow>
          (\<lparr>res_success = False, res_status_code = None, res_body = JDict [],
            res_error = Some ''No attempts executed'', res_duration_ms = 0\<rparr>, w))"
| "poll_loop rt request expect_cel delay_seconds (Suc n) last_result w =
     (case execute_http rt request w of
        (r, w1) \<Rightarrow>
          if res_success r \<and> evaluate_expect (py_repr rt) (res_body r) expect_cel then (r, w1)
          else poll_loop rt request expect_cel delay_seconds n (Some r) (sleep rt delay_seconds w1))"

definition poll_until_ready :: "'w runtime \<Rightarrow> json \<Rightarrow> string \<Rightarrow> int \<Rightarrow> int \<Rightarrow> 'w \<Rightarrow> execution_result \<times> 'w" where
  "poll_until_ready rt request expect_cel max_retries delay_seconds w =
     poll_loop rt request expect_cel delay_seconds (nat max_retries) None w"

section \<open>Sessions, attempts and steps\<close>

text \<open>
  \<^verbatim>\<open>Attempt\<close>. The timestamp (the clock's) is left out; \<^verbatim>\<open>response\<close> is the dict
  \<^verbatim>\<open>{"status_code": ..., "body": ...}\<close>, here its two entries.
\<close>

record attempt =
  index :: int
  operation_id :: string
  request_type :: string
  request :: json
  resolved_request :: json
  response_status_code :: "int option"
  response_body :: json
  success :: bool
  error :: "string option"
  duration_ms :: int
  saved_variables :: store
  save_config :: "save_config option"

text \<open>
  The \<^verbatim>\<open>expect\<close> dict of a step: its \<^verbatim>\<open>status_code\<close> entry and its \<^verbatim>\<open>cel\<close> entry,
  each when present.
\<close>

record expect =
  status_code :: "json option"
  cel :: "string option"

text \<open>\<^verbatim>\<open>Step\<close>\<close>

record step =
  step_name :: string
  step_operation_id :: string
  step_request_type :: string
  step_request :: json
  step_expect :: expect
  step_save :: "save_config option"
  step_max_retries :: int
  step_delay_after :: int

text \<open>
  A step as the final YAML file holds it, read back by \<^verbatim>\<open>yaml.safe_load\<close>: every key may
  be absent (the file is meant to be corrected by hand), and \<^verbatim>\<open>rerun\<close> reads each with
  \<^verbatim>\<open>step.get\<close>. Writing and reading the file is taken to give back what was written.
\<close>

record yaml_step =
  y_name :: "string option"
  y_operation_id :: "string option"
  y_request_type :: "string option"
  y_request :: "json option"
  y_expect :: "expect option"
  y_save :: "save_config option"
  y_max_retries :: "int option"
  y_delay_after :: "int option"

text \<open>The truth value of an \<^verbatim>\<open>Optional[dict]\<close>: \<^verbatim>\<open>None\<close> and the empty dict are false.\<close>

fun truthy_config :: "save_config option \<Rightarrow> bool" where
  "truthy_config None = False"
| "truthy_config (Some (SaveConfig None)) = False"
| "truthy_config (Some (SaveConfig (Some ps))) = True"

text \<open>\<^verbatim>\<open>Step.to_dict\<close>\<close>

definition to_dict :: "step \<Rightarrow> yaml_step" where
  "to_dict s =
     \<lparr>y_name = Some (step_name s),
      y_operation_id = Some (step_operation_id s),
      y_request_type = Some (step_request_type s),
      y_request = Some (step_request s),
      y_expect = Some (step_expect s),
      y_save = (if truthy_config (step_save s) then step_save s else None),
      y_max_retries = (if step_max_retries s > 0 then Some (step_max_retries s) else None),
      y_delay_after = (if step_delay_after s > 0 then Some (step_delay_after s) else None)\<rparr>"

text \<open>
  The state of a \<^verbatim>\<open>SessionManager\<close>: the preset variables of its SUT configuration, the
  Variable Store, the attempt log, and the steps of its final YAML file (\<open>None\<close> while
  the file does not exist). Identifiers, names and timestamps are left out, and so are the
  session file and the draft log, which nothing reads back within a session.
\<close>

record session =
  preset_variables :: store
  variables :: store
  attempts :: "attempt list"
  final_yaml :: "yaml_step list option"

text \<open>\<^verbatim>\<open>d.update(other)\<close>\<close>

definition dict_update :: "store \<Rightarrow> store \<Rightarrow> store" where
  "dict_update d other = foldl (\<lambda>m (k, v). AList.update k v m) d other"

text \<open>\<^verbatim>\<open>SessionManager.__init__\<close>\<close>

definition new_session :: "store \<Rightarrow> session" where
  "new_session presets =
     \<lparr>preset_variables = presets, variables = dict_update [] presets, attempts = [],
      final_yaml = None\<rparr>"

section \<open>\<^verbatim>\<open>execute\<close>\<close>

text \<open>The result for a request type that is neither \<^verbatim>\<open>http\<close> nor \<^verbatim>\<open>cli\<close>: no call is made.\<close>

definition unknown_request_type :: "string \<Rightarrow> execution_result" where
  "unknown_request_type req_type =
     \<lparr>res_success = False, res_status_code = None, res_body = JDict [],
      res_error = Some (''Unknown request_type: '' @ req_type), res_duration_ms = 0\<rparr>"

definition dispatch :: "'w runtime \<Rightarrow> string \<Rightarrow> json \<Rightarrow> 'w \<Rightarrow> execution_result \<times> 'w" where
  "dispatch rt req_type resolved w =
     (if req_type = ''http'' then execute_http rt resolved w
      else if req_type = ''cli'' then execute_cli rt resolved w
      else (unknown_request_type req_type, w))"

text \<open>
  From the result on, \<^verbatim>\<open>execute\<close> and the polling branch of \<^verbatim>\<open>rerun\<close> do the same:
  extract when the call succeeded, build the attempt with the next index, append it. An
  exception of the extraction leaves the method before the attempt is built; the store
  keeps what the entries before it wrote.
\<close>

definition record_attempt :: "string \<Rightarrow> string \<Rightarrow> json \<Rightarrow> json \<Rightarrow> save_config option \<Rightarrow> execution_result \<Rightarrow> session \<Rightarrow> session \<times> (py_error + attempt)" where
  "record_attempt op_id req_type req resolved save_cfg result s =
     (case (if res_success result then extract_and_save (variables s) (res_body result) save_cfg
            else (variables s, Inr [])) of
        (vars1, Inl e) \<Rightarrow> (s\<lparr>variables := vars1\<rparr>, Inl e)
      | (vars1, Inr saved_vars) \<Rightarrow>
          (let a = \<lparr>index = int (length (attempts s)),
                    operation_id = op_id,
                    request_type = req_type,
                    request = req,
                    resolved_request = resolved,
                    response_status_code = res_status_code result,
                    response_body = res_body result,
                    success = res_success result,
                    error = res_error result,
                    duration_ms = res_duration_ms result,
                    saved_variables = saved_vars,
                    save_config = save_cfg\<rparr>
           in (s\<lparr>variables := vars1, attempts := attempts s @ [a]\<rparr>, Inr a)))"

text \<open>
  \<^verbatim>\<open>execute\<close>. The warning about missing variables goes to the error stream and changes
  nothing; the draft log and the session file are written at the end.
\<close>

definition execute :: "'w runtime \<Rightarrow> string \<Rightarrow> json \<Rightarrow> save_config option \<Rightarrow> string \<Rightarrow> session \<times> 'w \<Rightarrow> (session \<times> 'w) \<times> (py_error + attempt)" where
  "execute rt op_id req save_cfg req_type st =
     (case st of (s, w) \<Rightarrow>
        (let resolved = expand_env_vars rt (substitute_variables (py_repr rt) (variables s) req) in
         case dispatch rt req_type resolved w of
           (result, w1) \<Rightarrow>
             (case record_attempt op_id req_type req resolved save_cfg result s of
                (s1, out) \<Rightarrow> ((s1, w1), out))))"



section \<open>\<^verbatim>\<open>summary\<close>\<close>

text \<open>\<^verbatim>\<open>_operation_to_name\<close>\<close>

definition operation_to_name :: "string \<Rightarrow> string" where
  "operation_to_name op_id =
     (if CHR ''_'' \<in> set op_id then join_str ''_'' (map lower (tl (split_on CHR ''_'' op_id)))
      else lower op_id)"

text \<open>\<^verbatim>\<open>d.setdefault(k, []).append(n)\<close>\<close>

definition setdefault_append :: "string \<Rightarrow> nat \<Rightarrow> (string \<times> nat list) list \<Rightarrow> (string \<times> nat list) list" where
  "setdefault_append k n d =
     AList.update k ((case map_of d k of None \<Rightarrow> [] | Some ns \<Rightarrow> ns) @ [n]) d"

text \<open>The locals of \<^verbatim>\<open>summary\<close> that its first loop updates.\<close>

record compile_state =
  step_number :: nat
  final_steps :: "step list"
  saved_vars_chain :: "(string \<times> nat) list"
  required_vars_chain :: "(string \<times> nat list) list"

definition make_step :: "nat \<Rightarrow> attempt \<Rightarrow> step" where
  "make_step n a =
     \<lparr>step_name = ''step_'' @ str_nat n @ ''_'' @ operation_to_name (operation_id a),
      step_operation_id = operation_id a,
      step_request_type = request_type a,
      step_request = redact_sensitive_values (request a),
      step_expect =
        \<lparr>status_code = Some (case response_status_code a of None \<Rightarrow> JNull | Some c \<Rightarrow> JInt c),
         cel = None\<rparr>,
      step_save = (if truthy_config (save_config a) then save_config a else None),
      step_max_retries = 0,
      step_delay_after = 0\<rparr>"

text \<open>One retained attempt: the body of the loop behind its two \<^verbatim>\<open>continue\<close>.\<close>

definition compile_attempt :: "attempt \<Rightarrow> compile_state \<Rightarrow> compile_state" where
  "compile_attempt a cs =
     (let n = step_number cs + 1 in
      \<lparr>step_number = n,
       final_steps = final_steps cs @ [make_step n a],
       saved_vars_chain =
         foldl (\<lambda>d var_name. AList.update var_name n d) (saved_vars_chain cs)
           (map fst (saved_variables a)),
       required_vars_chain =
         foldl (\<lambda>d var_name. setdefault_append var_name n d) (required_vars_chain cs)
           (find_required_variables (request a))\<rparr>)"

fun summary_loop :: "int list \<Rightarrow> attempt list \<Rightarrow> compile_state \<Rightarrow> compile_state" where
  "summary_loop remove_indices [] cs = cs"
| "summary_loop remove_indices (a # as) cs =
     (if index a \<in> set remove_indices then summary_loop remove_indices as cs
      else if \<not> success a then summary_loop remove_indices as cs
      else summary_loop remove_indices as (compile_attempt a cs))"

text \<open>\<^verbatim>\<open>str\<close> of a list of integers, as the f-string prints \<^verbatim>\<open>step_indices\<close>.\<close>

definition str_nat_list :: "nat list \<Rightarrow> string" where
  "str_nat_list ns = ''['' @ join_str '', '' (map str_nat ns) @ '']''"

definition never_saved_message :: "string \<Rightarrow> nat list \<Rightarrow> string" where
  "never_saved_message var_name step_indices =
     ''Variable '' @ [CHR 0x27] @ var_name @ [CHR 0x27] @ '' used in step(s) ''
       @ str_nat_list step_indices @ '' but never saved''"

definition used_before_message :: "string \<Rightarrow> nat \<Rightarrow> nat \<Rightarrow> string" where
  "used_before_message var_name use_step save_step =
     ''Variable '' @ [CHR 0x27] @ var_name @ [CHR 0x27] @ '' used in step '' @ str_nat use_step
       @ '' before being saved in step '' @ str_nat save_step"

text \<open>The validation pass, for one entry of \<^verbatim>\<open>required_vars_chain\<close>.\<close>

definition validate_entry :: "store \<Rightarrow> (string \<times> nat) list \<Rightarrow> string \<times> nat list \<Rightarrow> string list" where
  "validate_entry presets saved_chain entry =
     (case entry of (var_name, step_indices) \<Rightarrow>
        if var_name \<in> fst ` set presets then []
        else (case map_of saved_chain var_name of
                None \<Rightarrow> [never_saved_message var_name step_indices]
              | Some save_step \<Rightarrow>
                  map (\<lambda>use_step. used_before_message var_name use_step save_step)
                    (filter (\<lambda>use_step. use_step \<le> save_step) step_indices)))"

record summary_result =
  r_total_attempts :: nat
  r_success_attempts :: nat
  r_removed_attempts :: nat
  r_final_steps :: nat
  r_saved_variables :: "string list"
  r_validation_errors :: "string list"

text \<open>
  \<^verbatim>\<open>summary\<close>; \<^verbatim>\<open>remove_indices or []\<close> is the list given here. The final YAML file gets the
  steps (its scenario and connection headers are left out: \<^verbatim>\<open>rerun\<close> reads the steps only).
\<close>

definition summary :: "int list \<Rightarrow> session \<Rightarrow> session \<times> summary_result" where
  "summary remove_indices s =
     (let cs = summary_loop remove_indices (attempts s)
                 \<lparr>step_number = 0, final_steps = [], saved_vars_chain = [], required_vars_chain = []\<rparr>;
          validation_errors =
            concat (map (validate_entry (preset_variables s) (saved_vars_chain cs)) (required_vars_chain cs))
      in (s\<lparr>final_yaml := Some (map to_dict (final_steps cs))\<rparr>,
          \<lparr>r_total_attempts = length (attempts s),
           r_success_attempts = length (filter success (attempts s)),
           r_removed_attempts = length (remdups remove_indices),
           r_final_steps = length (final_steps cs),
           r_saved_variables = map fst (saved_vars_chain cs),
           r_validation_errors = validation_errors\<rparr>))"

section \<open>\<^verbatim>\<open>rerun\<close>\<close>

record step_report =
  sr_step :: string
  sr_success :: bool
  sr_error :: "string option"
  sr_saved :: "string list"

text \<open>
  What \<^verbatim>\<open>rerun\<close> returns: the failure dict when there is no final YAML file, else the
  overall flag, the rerun session (the dict gives its id and its variables) and the
  reports of the steps.
\<close>

datatype rerun_result =
    NoScenario string
  | Report bool session "step_report list"

definition or_default :: "'a option \<Rightarrow> 'a \<Rightarrow> 'a" where
  "or_default x d = (case x of None \<Rightarrow> d | Some v \<Rightarrow> v)"

text \<open>One round of the loop of \<^verbatim>\<open>rerun\<close>, up to the attempt.\<close>

definition rerun_step :: "'w runtime \<Rightarrow> yaml_step \<Rightarrow> session \<times> 'w \<Rightarrow> (session \<times> 'w) \<times> (py_error + attempt)" where
  "rerun_step rt y st =
     (let op_id = or_default (y_operation_id y) [];
          req_type = or_default (y_request_type y) ''http'';
          req = or_default (y_request y) (JDict []);
          save_cfg = y_save y;
          max_retries = or_default (y_max_retries y) 0;
          delay_after = or_default (y_delay_after y) 0;
          cel_condition = (case y_expect y of None \<Rightarrow> [] | Some e \<Rightarrow> or_default (cel e) [])
      in if max_retries > 0 \<and> cel_condition \<noteq> [] \<and> req_type = ''http'' then
           (case st of (rs, w) \<Rightarrow>
              (let resolved = substitute_variables (py_repr rt) (variables rs) req in
               case poll_until_ready rt resolved cel_condition max_retries
                      (if delay_after \<noteq> 0 then delay_after else 30) w of
                 (result, w1) \<Rightarrow>
                   (case record_attempt op_id req_type req resolved save_cfg result rs of
                      (rs1, out) \<Rightarrow> ((rs1, w1), out))))
         else execute rt op_id req save_cfg req_type st)"

definition report_of :: "yaml_step \<Rightarrow> attempt \<Rightarrow> step_report" where
  "report_of y a =
     \<lparr>sr_step = or_default (y_name y) (or_default (y_operation_id y) []),
      sr_success = success a,
      sr_error = error a,
      sr_saved = map fst (saved_variables a)\<rparr>"

fun rerun_loop :: "'w runtime \<Rightarrow> yaml_step list \<Rightarrow> session \<times> 'w \<Rightarrow> step_report list \<Rightarrow> bool \<Rightarrow> 'w \<times> (py_error + rerun_result)" where
  "rerun_loop rt [] st results all_success = (snd st, Inr (Report all_success (fst st) results))"
| "rerun_loop rt (y # ys) st results all_success =
     (case rerun_step rt y st of
        (st1, Inl e) \<Rightarrow> (snd st1, Inl e)
      | (st1, Inr a) \<Rightarrow>
          rerun_loop rt ys st1 (results @ [report_of y a]) (if \<not> success a then False else all_success))"

definition rerun :: "'w runtime \<Rightarrow> session \<Rightarrow> 'w \<Rightarrow> 'w \<times> (py_error + rerun_result)" where
  "rerun rt s w =
     (case final_yaml s of
        None \<Rightarrow> (w, Inr (NoScenario ''No final YAML file. Run summary first.''))
      | Some steps \<Rightarrow> rerun_loop rt steps (new_session (preset_variables s), w) [] True)"








section \<open>Properties of the path language and of extraction\<close>

lemma split_on_no_sep: "sep \<notin> set s \<Longrightarrow> split_on sep s = [s]"
  by (induction s) auto

lemma split_on_append_sep:
  "sep \<notin> set s \<Longrightarrow> split_on sep (s @ sep # t) = s # split_on sep t"
  by (induction s) auto

lemma split_on_join_str:
  "ss \<noteq> [] \<Longrightarrow> \<forall>s \<in> set ss. c \<notin> set s \<Longrightarrow> split_on c (join_str [c] ss) = ss"
proof (induction "[c]" ss rule: join_str.induct)
  case 1
  then show ?case by simp
next
  case (2 s)
  then show ?case by (simp add: split_on_no_sep)
next
  case (3 s t ts)
  then show ?case by (simp add: split_on_append_sep)
qed

lemma is_digit_not_int_space: "is_digit c \<Longrightarrow> \<not> is_int_space c"
  by (auto simp: is_digit_def is_int_space_def Let_def)

lemma strip_with_none: "\<forall>c \<in> set s. \<not> P c \<Longrightarrow> strip_with P s = s"
proof -
  assume a: "\<forall>c \<in> set s. \<not> P c"
  have 1: "dropWhile P s = s"
    using a by (cases s) auto
  have 2: "dropWhile P (rev s) = rev s"
    using a by (cases "rev s") (auto dest: arg_cong [where f = set])
  show ?thesis by (simp add: strip_with_def 1 2)
qed

lemma strip_digits: "list_all is_digit ds \<Longrightarrow> strip_with is_int_space ds = ds"
  by (rule strip_with_none) (auto simp: list_all_iff is_digit_not_int_space)

lemma int_digits_all:
  "list_all is_digit ds \<Longrightarrow> (ds \<noteq> [] \<or> b) \<Longrightarrow>
   int_digits b acc ds = Some (foldl (\<lambda>acc c. 10 * acc + digit_val c) acc ds)"
  by (induction ds arbitrary: b acc) auto

lemma is_digit_chars: "is_digit c \<Longrightarrow> c \<noteq> CHR ''-'' \<and> c \<noteq> CHR ''+'' \<and> c \<noteq> CHR ''['' \<and> c \<noteq> CHR '']'' \<and> c \<noteq> CHR ''.''"
  by (auto simp: is_digit_def)

lemma filter_digits: "list_all is_digit ds \<Longrightarrow> filter is_digit ds = ds"
  by (simp add: list_all_iff)

lemma py_int_digits:
  assumes "list_all is_digit ds" and "ds \<noteq> []" and "length ds \<le> int_max_str_digits"
  shows "py_int ds = Some (int (digits_value ds))"
proof -
  obtain c cs where ds: "ds = c # cs" using assms(2) by (cases ds) auto
  from assms(1) ds have c: "c \<noteq> CHR ''-''" "c \<noteq> CHR ''+''"
    using is_digit_chars [of c] by simp_all
  have "int_literal ds = Some (digits_value ds)"
    using assms by (simp add: int_literal_def filter_digits int_digits_all digits_value_def)
  with c ds show ?thesis
    by (simp add: py_int_def strip_digits [OF assms(1), unfolded ds])
qed

lemma py_int_too_long:
  assumes "list_all is_digit ds" and "int_max_str_digits < length ds"
  shows "py_int ds = None"
proof -
  from assms(2) obtain c cs where ds: "ds = c # cs" by (cases ds) auto
  from assms(1) ds have c: "c \<noteq> CHR ''-''" "c \<noteq> CHR ''+''"
    using is_digit_chars [of c] by simp_all
  have "int_literal ds = None"
    using assms by (simp add: int_literal_def filter_digits)
  with c ds show ?thesis
    by (simp add: py_int_def strip_digits [OF assms(1), unfolded ds])
qed

lemma index_of_append: "c \<notin> set k \<Longrightarrow> index_of c (k @ c # r) = Some (length k)"
  by (induction k) (auto simp: index_of_def)

lemma parse_segment_wf: "wf_segment seg \<Longrightarrow> parse_segment (segment_text seg) = Inr (segment_parts seg)"
proof (cases seg)
  case (Key k)
  assume "wf_segment seg"
  with Key show ?thesis by (simp add: parse_segment_def index_of_def key_ok_def)
next
  case (KeyIdx k ds)
  assume wf: "wf_segment seg"
  with KeyIdx have k: "CHR ''['' \<notin> set k" "CHR '']'' \<notin> set k"
    and ds: "ds \<noteq> []" "list_all is_digit ds" "length ds \<le> int_max_str_digits"
    by (auto simp: key_ok_def)
  have i: "index_of CHR ''['' (k @ CHR ''['' # ds @ '']'') = Some (length k)"
    using k by (rule_tac index_of_append) 
  have nb: "CHR '']'' \<notin> set (k @ CHR ''['' # ds)"
    using k ds by (auto simp: list_all_iff dest: is_digit_chars)
  have j: "index_of CHR '']'' ((k @ CHR ''['' # ds) @ CHR '']'' # []) = Some (length (k @ CHR ''['' # ds))"
    using nb by (rule index_of_append)
  show ?thesis
    using KeyIdx i j ds by (simp add: parse_segment_def py_int_digits)
qed

lemma parse_segment_too_long:
  assumes "CHR ''['' \<notin> set k" "CHR '']'' \<notin> set k"
    and "list_all is_digit ds" "int_max_str_digits < length ds"
  shows "parse_segment (k @ ''['' @ ds @ '']'') = Inl ValueError"
proof -
  have i: "index_of CHR ''['' (k @ CHR ''['' # ds @ '']'') = Some (length k)"
    using assms(1) by (rule index_of_append)
  have nb: "CHR '']'' \<notin> set (k @ CHR ''['' # ds)"
    using assms(2,3) by (auto simp: list_all_iff dest: is_digit_chars)
  have j: "index_of CHR '']'' ((k @ CHR ''['' # ds) @ CHR '']'' # []) = Some (length (k @ CHR ''['' # ds))"
    using nb by (rule index_of_append)
  show ?thesis
    using i j py_int_too_long [OF assms(3,4)] by (simp add: parse_segment_def)
qed

lemma parse_segments_wf:
  "\<forall>seg \<in> set segs. wf_segment seg \<Longrightarrow> parse_segments (map segment_text segs) = Inr (path_parts segs)"
  by (induction segs) (auto simp: path_parts_def parse_segment_wf)

lemma segment_text_no_dot: "wf_segment seg \<Longrightarrow> CHR ''.'' \<notin> set (segment_text seg)"
  by (cases seg) (auto simp: key_ok_def list_all_iff dest: is_digit_chars)

lemma parse_path_wf:
  "segs \<noteq> [] \<Longrightarrow> \<forall>seg \<in> set segs. wf_segment seg \<Longrightarrow> parse_path (path_text segs) = Inr (path_parts segs)"
  unfolding parse_path_def path_text_def
  by (subst split_on_join_str) (auto simp: segment_text_no_dot parse_segments_wf)

lemma walk_addressed:
  "nonneg_parts ps \<Longrightarrow> walk v ps = Inr (case addressed v ps of Some x \<Rightarrow> x | None \<Rightarrow> JNull)"
  by (induction v ps rule: walk.induct) (auto split: json.splits option.splits)

lemma nonneg_append: "nonneg_parts (ps @ qs) = (nonneg_parts ps \<and> nonneg_parts qs)"
  by (induction ps rule: nonneg_parts.induct) auto

lemma nonneg_path_parts: "nonneg_parts (path_parts segs)"
proof (induction segs)
  case Nil
  then show ?case by (simp add: path_parts_def)
next
  case (Cons seg segs)
  have "nonneg_parts (segment_parts seg)" by (cases seg) auto
  with Cons show ?case by (simp add: path_parts_def nonneg_append)
qed

lemma addressed_walk: "addressed v ps = Some x \<Longrightarrow> walk v ps = Inr x"
  by (induction v ps rule: walk.induct) (auto split: json.splits option.splits if_splits)

lemma extract_value_addressed:
  "parse_path (strip_body_prefix e) = Inr ps \<Longrightarrow> addressed response ps = Some x \<Longrightarrow>
   extract_value response e = Inr x"
  by (simp add: extract_value_def addressed_walk)

lemma extract_value_not_found:
  "parse_path (strip_body_prefix e) = Inr ps \<Longrightarrow> nonneg_parts ps \<Longrightarrow> addressed response ps = None \<Longrightarrow>
   extract_value response e = Inr JNull"
  by (simp add: extract_value_def walk_addressed)

lemma save_loop_null:
  "extract_value response e = Inr JNull \<Longrightarrow>
   save_loop response (\<lparr>p_key = k, p_eval = Some e\<rparr> # rest) vars saved = save_loop response rest vars saved"
  by (cases k) auto

lemma extract_value_too_long:
  assumes "key_ok k" and "list_all is_digit ds" and "int_max_str_digits < length ds"
  shows "extract_value response (''body.'' @ k @ ''['' @ ds @ '']'') = Inl ValueError"
proof -
  have nd: "CHR ''.'' \<notin> set (k @ ''['' @ ds @ '']'')"
    using assms(1,2) by (auto simp: key_ok_def list_all_iff dest: is_digit_chars)
  have seg: "parse_segment (k @ ''['' @ ds @ '']'') = Inl ValueError"
    using assms by (intro parse_segment_too_long) (simp_all add: key_ok_def)
  have "parse_path (k @ ''['' @ ds @ '']'') = Inl ValueError"
    by (simp only: parse_path_def split_on_no_sep [OF nd] parse_segments.simps seg sum.case)
  then show ?thesis
    by (simp add: extract_value_def strip_body_prefix_def)
qed

text \<open>
  Claim C6, as amended. For every response and every path of the grammar (a non-empty list
  of well-formed segments, an index being a non-empty string of at most 4300 digits),
  \<^const>\<open>extract_value\<close> never raises: given the path behind the marker \<^verbatim>\<open>body.\<close> it
  returns the addressed value when every segment resolves and \<^verbatim>\<open>None\<close> otherwise; given
  the bare path it does the same provided the path does not itself begin with
  \<^verbatim>\<open>body.\<close> (the marker is stripped once, whatever follows it).
\<close>

theorem extract_value_resolves:
  assumes "segs \<noteq> []" and "list_all wf_segment segs"
  shows "extract_value response (''body.'' @ path_text segs) =
           Inr (case addressed response (path_parts segs) of Some v \<Rightarrow> v | None \<Rightarrow> JNull)
       \<and> (\<not> prefix ''body.'' (path_text segs) \<longrightarrow>
            extract_value response (path_text segs) =
              Inr (case addressed response (path_parts segs) of Some v \<Rightarrow> v | None \<Rightarrow> JNull))"
  using assms
  by (simp add: extract_value_def strip_body_prefix_def parse_path_wf walk_addressed
      nonneg_path_parts list_all_iff)

theorem extract_value_resolves_witness:
  "[KeyIdx ''items'' ''1'', Key ''id''] \<noteq> []
   \<and> list_all wf_segment [KeyIdx ''items'' ''1'', Key ''id'']
   \<and> \<not> prefix ''body.'' (path_text [KeyIdx ''items'' ''1'', Key ''id''])
   \<and> extract_value (JDict [(''items'', JList [JDict [(''id'', JInt 1)], JDict [(''id'', JInt 2)]])])
         ''body.items[1].id'' = Inr (JInt 2)
   \<and> extract_value (JDict [(''items'', JList [JDict [(''id'', JInt 1)], JDict [(''id'', JInt 2)]])])
         ''items[1].id'' = Inr (JInt 2)
   \<and> extract_value (JDict [(''items'', JList [JDict [(''id'', JInt 1)], JDict [(''id'', JInt 2)]])])
         ''body.items[2].id'' = Inr JNull"
  using extract_value_resolves [of "[KeyIdx ''items'' ''1'', Key ''id'']"
      "JDict [(''items'', JList [JDict [(''id'', JInt 1)], JDict [(''id'', JInt 2)]])]"]
    extract_value_resolves [of "[KeyIdx ''items'' ''2'', Key ''id'']"
      "JDict [(''items'', JList [JDict [(''id'', JInt 1)], JDict [(''id'', JInt 2)]])]"]
  by (simp add: path_text_def path_parts_def key_ok_def is_digit_def digits_value_def digit_val_def
      int_max_str_digits_def)

text \<open>
  Claim C6 as stated fails twice. On a path whose first key is \<^verbatim>\<open>body\<close>: in
  \<^verbatim>\<open>{"body": {"id": 7}}\<close> both segments of \<^verbatim>\<open>body.id\<close> resolve, to 7, and
  \<^const>\<open>extract_value\<close> returns \<^verbatim>\<open>None\<close>, having looked \<^verbatim>\<open>id\<close> up at the top. And
  on an index of more than 4300 digits, a non-negative integer literal that \<^verbatim>\<open>int\<close>
  refuses: \<^verbatim>\<open>body.a[0...0]\<close> with 4301 zeros raises \<^verbatim>\<open>ValueError\<close> where the
  grammar addresses the first item of \<^verbatim>\<open>a\<close>.
\<close>

theorem extract_value_body_key_counterexample:
  "list_all wf_segment [Key ''body'', Key ''id'']
   \<and> addressed (JDict [(''body'', JDict [(''id'', JInt 7)])]) (path_parts [Key ''body'', Key ''id''])
       = Some (JInt 7)
   \<and> extract_value (JDict [(''body'', JDict [(''id'', JInt 7)])]) (path_text [Key ''body'', Key ''id''])
       = Inr JNull
   \<and> key_ok ''a'' \<and> list_all is_digit (replicate 4301 CHR ''0'')
   \<and> addressed (JDict [(''a'', JList [JInt 1])])
        (path_parts [KeyIdx ''a'' (replicate 4301 CHR ''0'')]) = Some (JInt 1)
   \<and> extract_value (JDict [(''a'', JList [JInt 1])])
        (''body.'' @ path_text [KeyIdx ''a'' (replicate 4301 CHR ''0'')]) = Inl ValueError"
proof -
  have d: "list_all is_digit (replicate 4301 CHR ''0'')"
    by (simp add: list_all_iff is_digit_def)
  have z: "foldl (\<lambda>acc c. 10 * acc + digit_val c) 0 (replicate n CHR ''0'') = 0" for n
    by (induction n) (simp_all add: digit_val_def)
  have a: "addressed (JDict [(''a'', JList [JInt 1])])
      (path_parts [KeyIdx ''a'' (replicate 4301 CHR ''0'')]) = Some (JInt 1)"
    by (simp add: path_parts_def digits_value_def z)
  have l: "extract_value (JDict [(''a'', JList [JInt 1])])
      (''body.'' @ ''a'' @ ''['' @ replicate 4301 CHR ''0'' @ '']'') = Inl ValueError"
    using d by (intro extract_value_too_long) (simp_all add: key_ok_def int_max_str_digits_def)
  have b: "addressed (JDict [(''body'', JDict [(''id'', JInt 7)])]) (path_parts [Key ''body'', Key ''id''])
       = Some (JInt 7)
   \<and> extract_value (JDict [(''body'', JDict [(''id'', JInt 7)])]) (path_text [Key ''body'', Key ''id''])
       = Inr JNull"
    by (simp add: path_text_def path_parts_def key_ok_def extract_value_def strip_body_prefix_def
      parse_path_def parse_segment_def index_of_def)
  have k: "list_all wf_segment [Key ''body'', Key ''id''] \<and> key_ok ''a''"
    by (simp add: key_ok_def)
  from l have l': "extract_value (JDict [(''a'', JList [JInt 1])])
        (''body.'' @ path_text [KeyIdx ''a'' (replicate 4301 CHR ''0'')]) = Inl ValueError"
    by (simp add: path_text_def)
  from k b d a l' show ?thesis by blast
qed

text \<open>
  Claim C10. When the eval path of an entry resolves to a JSON null, \<^const>\<open>extract_value\<close>
  returns \<^verbatim>\<open>None\<close>, the entry leaves the store and \<^verbatim>\<open>saved\<close> as they were wherever
  it stands in the list, a save_config holding only that entry returns the store unchanged
  with nothing saved, and the run is the one of an entry whose path does not resolve. The
  last part reads the branch off the code itself: whatever the path, an entry for which
  \<^const>\<open>extract_value\<close> returns \<^verbatim>\<open>None\<close>, be it a null reached through a negative
  index or nothing reached at all, is skipped in the same way.
\<close>

theorem extract_and_save_null_writes_nothing:
  assumes "parse_path (strip_body_prefix e) = Inr ps" and "addressed response ps = Some JNull"
  shows "extract_value response e = Inr JNull
       \<and> save_loop response (\<lparr>p_key = Some k, p_eval = Some e\<rparr> # rest) vars saved
           = save_loop response rest vars saved
       \<and> extract_and_save vars response (Some (SaveConfig (Some [\<lparr>p_key = Some k, p_eval = Some e\<rparr>])))
           = (vars, Inr [])
       \<and> (\<forall>e' ps'. parse_path (strip_body_prefix e') = Inr ps' \<and> nonneg_parts ps'
              \<and> addressed response ps' = None \<longrightarrow>
            save_loop response (\<lparr>p_key = Some k, p_eval = Some e'\<rparr> # rest) vars saved
              = save_loop response (\<lparr>p_key = Some k, p_eval = Some e\<rparr> # rest) vars saved)
       \<and> (\<forall>e'. extract_value response e' = Inr JNull \<longrightarrow>
            save_loop response (\<lparr>p_key = Some k, p_eval = Some e'\<rparr> # rest) vars saved
              = save_loop response rest vars saved
            \<and> extract_and_save vars response
                (Some (SaveConfig (Some [\<lparr>p_key = Some k, p_eval = Some e'\<rparr>]))) = (vars, Inr []))"
proof -
  have null: "extract_value response e = Inr JNull"
    using assms by (rule extract_value_addressed)
  have one: "save_loop response (\<lparr>p_key = Some k, p_eval = Some e'\<rparr> # rest) vars saved
      = save_loop response rest vars saved"
    if "extract_value response e' = Inr JNull" for e' rest vars saved
    using that by (rule save_loop_null)
  have whole: "extract_and_save vars response
      (Some (SaveConfig (Some [\<lparr>p_key = Some k, p_eval = Some e'\<rparr>]))) = (vars, Inr [])"
    if "extract_value response e' = Inr JNull" for e'
    by (simp only: extract_and_save_def option.case save_config.case one [OF that]) simp
  have other: "save_loop response (\<lparr>p_key = Some k, p_eval = Some e'\<rparr> # rest) vars saved
      = save_loop response (\<lparr>p_key = Some k, p_eval = Some e\<rparr> # rest) vars saved"
    if "parse_path (strip_body_prefix e') = Inr ps'" "nonneg_parts ps'" "addressed response ps' = None"
    for e' ps'
    by (simp only: one [OF null] one [OF extract_value_not_found [OF that]])
  show ?thesis using null one [OF null] whole [OF null] other one whole by blast
qed

theorem extract_and_save_null_writes_nothing_witness:
  "parse_path (strip_body_prefix ''body.owner'') = Inr [PKey ''owner'']
   \<and> addressed (JDict [(''id'', JInt 5), (''owner'', JNull), (''tags'', JList [JNull])])
        [PKey ''owner''] = Some JNull
   \<and> parse_path (strip_body_prefix ''body.missing'') = Inr [PKey ''missing'']
   \<and> nonneg_parts [PKey ''missing'']
   \<and> addressed (JDict [(''id'', JInt 5), (''owner'', JNull), (''tags'', JList [JNull])])
        [PKey ''missing''] = None
   \<and> extract_and_save [(''x'', JInt 1)]
        (JDict [(''id'', JInt 5), (''owner'', JNull), (''tags'', JList [JNull])])
        (Some (SaveConfig (Some [\<lparr>p_key = Some ''owner_1'', p_eval = Some ''body.owner''\<rparr>])))
       = ([(''x'', JInt 1)], Inr [])
   \<and> save_loop (JDict [(''id'', JInt 5), (''owner'', JNull), (''tags'', JList [JNull])])
        [\<lparr>p_key = Some ''owner_1'', p_eval = Some ''body.missing''\<rparr>] [(''x'', JInt 1)] []
       = save_loop (JDict [(''id'', JInt 5), (''owner'', JNull), (''tags'', JList [JNull])])
        [\<lparr>p_key = Some ''owner_1'', p_eval = Some ''body.owner''\<rparr>] [(''x'', JInt 1)] []
   \<and> extract_value (JDict [(''id'', JInt 5), (''owner'', JNull), (''tags'', JList [JNull])])
        ''body.tags[-1]'' = Inr JNull
   \<and> extract_and_save [(''x'', JInt 1)]
        (JDict [(''id'', JInt 5), (''owner'', JNull), (''tags'', JList [JNull])])
        (Some (SaveConfig (Some [\<lparr>p_key = Some ''owner_1'', p_eval = Some ''body.tags[-1]''\<rparr>])))
       = ([(''x'', JInt 1)], Inr [])"
proof -
  have p: "parse_path (strip_body_prefix ''body.owner'') = Inr [PKey ''owner'']"
    by (simp add: strip_body_prefix_def parse_path_def parse_segment_def index_of_def)
  have a: "addressed (JDict [(''id'', JInt 5), (''owner'', JNull), (''tags'', JList [JNull])])
      [PKey ''owner''] = Some JNull"
    by simp
  have p': "parse_path (strip_body_prefix ''body.missing'') = Inr [PKey ''missing'']"
    by (simp add: strip_body_prefix_def parse_path_def parse_segment_def index_of_def)
  have a': "addressed (JDict [(''id'', JInt 5), (''owner'', JNull), (''tags'', JList [JNull])])
      [PKey ''missing''] = None"
    by simp
  have n: "nonneg_parts [PKey ''missing'']" by simp
  have m: "extract_value (JDict [(''id'', JInt 5), (''owner'', JNull), (''tags'', JList [JNull])])
      ''body.tags[-1]'' = Inr JNull"
    by (simp add: extract_value_def strip_body_prefix_def parse_path_def parse_segment_def
        index_of_def py_int_def strip_with_def is_int_space_def int_literal_def
        int_max_str_digits_def is_digit_def digit_val_def)
  show ?thesis
    using extract_and_save_null_writes_nothing [OF p a, of "''owner_1''" "[]" "[(''x'', JInt 1)]" "[]"]
      p a p' a' n m by blast
qed

section \<open>Properties of redaction\<close>

lemma is_word_collapse: "c \<in> set (collapse_non_alnum s) \<Longrightarrow> is_word c"
  by (induction s rule: collapse_non_alnum.induct) (auto simp: is_word_def split: if_splits)

lemma set_split_camel: "set (split_camel s) \<subseteq> insert CHR ''_'' (set s)"
  by (induction s rule: split_camel.induct) auto

lemma set_strip_chars: "set (strip_chars ch s) \<subseteq> set s"
proof -
  have "set (strip_chars ch s) \<subseteq> set (rev (dropWhile (\<lambda>c. c = ch) s))"
    by (auto simp: strip_chars_def dest!: set_dropWhileD)
  also have "\<dots> \<subseteq> set s"
    by (auto dest!: set_dropWhileD)
  finally show ?thesis .
qed

lemma is_word_to_lower: "is_word c \<Longrightarrow> is_word (to_lower c)"
proof (cases "map_of (zip ''ABCDEFGHIJKLMNOPQRSTUVWXYZ'' ''abcdefghijklmnopqrstuvwxyz'') c")
  case None
  assume w: "is_word c"
  then have "of_char c < (192 :: nat)"
    by (auto simp: is_word_def is_alnum_def is_upper_def is_lower_def is_digit_def Let_def)
  with None w show ?thesis by (simp add: to_lower_def)
next
  case (Some l)
  then have "l \<in> set ''abcdefghijklmnopqrstuvwxyz''"
    by (meson map_of_SomeD set_zip_rightD)
  then have "is_word l"
    by (auto simp: is_word_def is_alnum_def is_lower_def)
  with Some show ?thesis by (simp add: to_lower_def)
qed

lemma is_word_placeholder_name: "c \<in> set (to_placeholder_name k) \<Longrightarrow> is_word c"
proof -
  assume c: "c \<in> set (to_placeholder_name k)"
  have w: "\<forall>x \<in> set (strip_chars CHR ''_'' (split_camel (collapse_non_alnum k))). is_word x"
    using set_strip_chars [of "CHR ''_''" "split_camel (collapse_non_alnum k)"]
      set_split_camel [of "collapse_non_alnum k"] is_word_collapse [of _ k]
    by (auto simp: is_word_def)
  show ?thesis
  proof (cases "lower (strip_chars CHR ''_'' (split_camel (collapse_non_alnum k))) = []")
    case True
    then have "to_placeholder_name k = ''redacted''" by (simp add: to_placeholder_name_def)
    with c show ?thesis
      by (auto simp: is_word_def is_alnum_def is_lower_def)
  next
    case False
    then have "to_placeholder_name k = lower (strip_chars CHR ''_'' (split_camel (collapse_non_alnum k)))"
      by (simp add: to_placeholder_name_def Let_def)
    with c w show ?thesis by (auto simp: lower_def is_word_to_lower)
  qed
qed

lemma placeholder_name_nonempty: "to_placeholder_name k \<noteq> []"
  by (simp add: to_placeholder_name_def Let_def)

lemma placeholder_value_token:
  "placeholder_value (''{'' @ to_placeholder_name k @ ''}'')"
proof -
  have nw: "\<not> is_word CHR ''}''"
    by (simp add: is_word_def is_alnum_def is_upper_def is_lower_def is_digit_def)
  have tw: "takeWhile is_word (to_placeholder_name k @ ''}'') = to_placeholder_name k"
    using nw by (simp add: takeWhile_append2 is_word_placeholder_name takeWhile_tail)
  have dw: "dropWhile is_word (to_placeholder_name k @ ''}'') = ''}''"
    using nw by (simp add: dropWhile_append2 is_word_placeholder_name)
  show ?thesis
    by (simp add: placeholder_value_def tw dw placeholder_name_nonempty)
qed

lemma redact_entry_idem: 
  "sensitive_key k \<Longrightarrow> redact_entry k (redact_entry k v) = redact_entry k v"
  by (auto simp: redact_entry_def placeholder_value_token split: json.splits)

lemma redact_dict: "redact_sensitive_values (JDict kvs) = JDict (map (\<lambda>(k, v). (k, redact_entry k v)) kvs)"
  by (auto simp: redact_entry_def split: json.splits)

lemma redact_idempotent: "redact_sensitive_values (redact_sensitive_values x) = redact_sensitive_values x"
proof (induction x rule: redact_sensitive_values.induct)
  case (1 kvs)
  have "redact_entry k (redact_entry k v) = redact_entry k v" if "(k, v) \<in> set kvs" for k v
  proof (cases "sensitive_key k")
    case True
    then show ?thesis by (rule redact_entry_idem)
  next
    case False
    with 1 [OF that refl False] show ?thesis by (simp add: redact_entry_def)
  qed
  then show ?case
    by (simp only: redact_dict) (auto simp: comp_def)
qed simp_all

lemma redact_no_sensitive: "no_sensitive_keys x \<Longrightarrow> redact_sensitive_values x = x"
proof (induction x rule: redact_sensitive_values.induct)
  case (1 kvs)
  have "map (\<lambda>(k, v). (k, redact_entry k v)) kvs = map (\<lambda>kv. kv) kvs"
  proof (rule map_cong [OF refl])
    fix kv assume kv: "kv \<in> set kvs"
    obtain k v where e: "kv = (k, v)" by (cases kv)
    from 1(2) kv e have ns: "\<not> sensitive_key k" "no_sensitive_keys v"
      by (auto simp: list_all_iff)
    from 1(1) [OF kv e [symmetric] ns(1) ns(2)] ns(1) e
    show "(case kv of (k, v) \<Rightarrow> (k, redact_entry k v)) = kv"
      by (simp add: redact_entry_def)
  qed
  then show ?case by (simp only: redact_dict) simp
next
  case (2 xs)
  then show ?case by (auto simp: list_all_iff map_idI)
qed simp_all

lemma contains_iff: "contains sub s \<longleftrightarrow> (\<exists>pre post. s = pre @ sub @ post)"
proof (induction s)
  case Nil
  then show ?case by auto
next
  case (Cons c cs)
  have "(\<exists>pre post. c # cs = pre @ sub @ post)
      \<longleftrightarrow> (\<exists>post. c # cs = sub @ post) \<or> (\<exists>pre post. cs = pre @ sub @ post)"
  proof
    assume "\<exists>pre post. c # cs = pre @ sub @ post"
    then obtain pre post where e: "c # cs = pre @ sub @ post" by blast
    show "(\<exists>post. c # cs = sub @ post) \<or> (\<exists>pre post. cs = pre @ sub @ post)"
    proof (cases pre)
      case Nil
      with e show ?thesis by auto
    next
      case (Cons p ps)
      with e have "cs = ps @ sub @ post" by simp
      then show ?thesis by blast
    qed
  next
    assume "(\<exists>post. c # cs = sub @ post) \<or> (\<exists>pre post. cs = pre @ sub @ post)"
    then show "\<exists>pre post. c # cs = pre @ sub @ post"
    proof
      assume "\<exists>post. c # cs = sub @ post"
      then obtain post where "c # cs = [] @ sub @ post" by auto
      then show ?thesis by blast
    next
      assume "\<exists>pre post. cs = pre @ sub @ post"
      then obtain pre post where "c # cs = (c # pre) @ sub @ post" by auto
      then show ?thesis by blast
    qed
  qed
  with Cons show ?case by (simp only: contains.simps prefix_def)
qed

lemma sensitive_key_iff:
  "sensitive_key k \<longleftrightarrow>
     (\<exists>f \<in> set [''password'', ''privatekey'', ''private_key'', ''private-key'', ''token'',
                 ''secret'', ''pwd''].
        \<exists>pre post. lower k = pre @ f @ post)"
proof -
  define P where "P f = (\<exists>pre post. lower k = pre @ f @ post)" for f
  have c: "contains f (lower k) = P f" for f
    by (simp only: contains_iff P_def)
  have "sensitive_key k \<longleftrightarrow>
      (P ''password'' \<or> P ''privatekey'' \<or> P ''private_key'' \<or> P ''private-key'' \<or> P ''token''
       \<or> P ''secret'' \<or> P ''pwd'')"
    by (simp only: sensitive_key_def Let_def c)
  also have "\<dots> \<longleftrightarrow>
      (\<exists>f \<in> set [''password'', ''privatekey'', ''private_key'', ''private-key'', ''token'',
                  ''secret'', ''pwd'']. P f)"
    by (simp only: list.set bex_simps) simp
  finally show ?thesis unfolding P_def .
qed

text \<open>
  Claim C7, as amended. For every value \<open>x\<close>, redacting twice is redacting once. In a dict
  each value is replaced by \<^const>\<open>redact_entry\<close> of its key and itself: under a key
  that is not sensitive this is the redaction of the value, which is the value itself when
  it holds no sensitive key at any depth; under a sensitive key a placeholder-shaped string
  is kept and every other value becomes the placeholder built from the key. A key is
  sensitive when, its letters lowered, it contains one of the fragments \<^verbatim>\<open>password\<close>,
  \<^verbatim>\<open>privatekey\<close>, \<^verbatim>\<open>private_key\<close>, \<^verbatim>\<open>private-key\<close>, \<^verbatim>\<open>token\<close>, \<^verbatim>\<open>secret\<close>,
  \<^verbatim>\<open>pwd\<close>, so two keys that differ in case only are sensitive together.
\<close>

theorem redact_idempotent_and_entries:
  "redact_sensitive_values (redact_sensitive_values x) = redact_sensitive_values x
   \<and> redact_sensitive_values (JDict kvs) = JDict (map (\<lambda>(k, v). (k, redact_entry k v)) kvs)
   \<and> (\<not> sensitive_key k \<longrightarrow> redact_entry k v = redact_sensitive_values v)
   \<and> (no_sensitive_keys v \<longrightarrow> redact_sensitive_values v = v)
   \<and> (sensitive_key k \<and> placeholder_value s \<longrightarrow> redact_entry k (JStr s) = JStr s)
   \<and> (sensitive_key k \<and> (\<forall>s. v = JStr s \<longrightarrow> \<not> placeholder_value s) \<longrightarrow>
        redact_entry k v = JStr (''{'' @ to_placeholder_name k @ ''}''))
   \<and> (sensitive_key k \<longleftrightarrow>
        (\<exists>f \<in> set [''password'', ''privatekey'', ''private_key'', ''private-key'', ''token'',
                    ''secret'', ''pwd''].
           \<exists>pre post. lower k = pre @ f @ post))
   \<and> (lower k = lower k' \<longrightarrow> sensitive_key k = sensitive_key k')"
proof -
  have 1: "(\<not> sensitive_key k \<longrightarrow> redact_entry k v = redact_sensitive_values v)
   \<and> (sensitive_key k \<and> placeholder_value s \<longrightarrow> redact_entry k (JStr s) = JStr s)
   \<and> (sensitive_key k \<and> (\<forall>s. v = JStr s \<longrightarrow> \<not> placeholder_value s) \<longrightarrow>
        redact_entry k v = JStr (''{'' @ to_placeholder_name k @ ''}''))"
    by (auto simp: redact_entry_def split: json.splits)
  have 2: "lower k = lower k' \<longrightarrow> sensitive_key k = sensitive_key k'"
    by (simp add: sensitive_key_def)
  show ?thesis
    using redact_idempotent [of x] redact_dict [of kvs] redact_no_sensitive [of v]
      sensitive_key_iff [of k] 1 2
    by blast
qed

theorem redact_idempotent_and_entries_witness:
  "\<not> sensitive_key ''config'' \<and> sensitive_key ''rootPassword'' \<and> sensitive_key ''API_TOKEN''
   \<and> lower ''API_TOKEN'' = lower ''api_token'' \<and> sensitive_key ''api_token''
   \<and> no_sensitive_keys (JDict [(''region'', JStr ''eu'')])
   \<and> placeholder_value ''{root_password}'' \<and> \<not> placeholder_value ''hunter2''
   \<and> redact_sensitive_values
        (JDict [(''config'', JDict [(''region'', JStr ''eu'')]),
                (''rootPassword'', JStr ''hunter2''),
                (''API_TOKEN'', JStr ''{root_password}'')])
      = JDict [(''config'', JDict [(''region'', JStr ''eu'')]),
               (''rootPassword'', JStr ''{root_password}''),
               (''API_TOKEN'', JStr ''{root_password}'')]"
proof -
  have a: "\<not> sensitive_key ''config''" by (simp add: sensitive_key_def lower_def to_lower_def)
  have b: "sensitive_key ''rootPassword''" by (simp add: sensitive_key_def lower_def to_lower_def)
  have c: "sensitive_key ''API_TOKEN''" by (simp add: sensitive_key_def lower_def to_lower_def)
  have l: "lower ''API_TOKEN'' = lower ''api_token''" by (simp add: lower_def to_lower_def)
  have c': "sensitive_key ''api_token''"
    using redact_idempotent_and_entries [of undefined "[]" "''API_TOKEN''" undefined undefined "''api_token''"] c l
    by blast
  have d: "no_sensitive_keys (JDict [(''region'', JStr ''eu'')])"
    by (simp add: sensitive_key_def lower_def to_lower_def)
  have e: "placeholder_value ''{root_password}''"
    by (simp add: placeholder_value_def is_word_def is_alnum_def is_upper_def is_lower_def is_digit_def)
  have f: "\<not> placeholder_value ''hunter2''" by (simp add: placeholder_value_def)
  have n: "to_placeholder_name ''rootPassword'' = ''root_password''"
    by (simp add: to_placeholder_name_def is_alnum_def is_upper_def is_lower_def is_digit_def
        strip_chars_def lower_def to_lower_def)
  have g: "redact_entry ''config'' (JDict [(''region'', JStr ''eu'')]) = JDict [(''region'', JStr ''eu'')]"
    using redact_idempotent_and_entries [of undefined "[]" "''config''" "JDict [(''region'', JStr ''eu'')]" undefined undefined] a d
    by simp
  have h: "redact_entry ''rootPassword'' (JStr ''hunter2'') = JStr ''{root_password}''"
    using redact_idempotent_and_entries [of undefined "[]" "''rootPassword''" "JStr ''hunter2''" undefined undefined] b f n
    by simp
  have i: "redact_entry ''API_TOKEN'' (JStr ''{root_password}'') = JStr ''{root_password}''"
    using redact_idempotent_and_entries [of undefined "[]" "''API_TOKEN''" undefined "''{root_password}''" undefined] c e
    by simp
  have j: "redact_sensitive_values
        (JDict [(''config'', JDict [(''region'', JStr ''eu'')]),
                (''rootPassword'', JStr ''hunter2''),
                (''API_TOKEN'', JStr ''{root_password}'')])
      = JDict [(''config'', JDict [(''region'', JStr ''eu'')]),
               (''rootPassword'', JStr ''{root_password}''),
               (''API_TOKEN'', JStr ''{root_password}'')]"
    using redact_idempotent_and_entries [of undefined "[(''config'', JDict [(''region'', JStr ''eu'')]),
                (''rootPassword'', JStr ''hunter2''),
                (''API_TOKEN'', JStr ''{root_password}'')]" undefined undefined undefined undefined]
    by (simp only: list.map prod.case g h i)
  show ?thesis using a b c l c' d e f j by blast
qed

text \<open>
  Claim C7 as stated fails: the value under \<^verbatim>\<open>config\<close>, a key that is not sensitive,
  is changed, since redaction goes on inside it. And of the fragments the claim lists,
  \<^verbatim>\<open>private key\<close> written with a space is none of the code's: the value under such a
  key is kept, where under \<^verbatim>\<open>private_key\<close> it is replaced.
\<close>

theorem redact_changes_plain_key_counterexample:
  "\<not> sensitive_key ''config''
   \<and> redact_sensitive_values (JDict [(''config'', JDict [(''password'', JStr ''hunter2'')])])
      = JDict [(''config'', JDict [(''password'', JStr ''{password}'')])]
   \<and> JDict [(''password'', JStr ''{password}'')] \<noteq> JDict [(''password'', JStr ''hunter2'')]
   \<and> \<not> sensitive_key ''private key''
   \<and> redact_sensitive_values (JDict [(''private key'', JStr ''hunter2'')])
      = JDict [(''private key'', JStr ''hunter2'')]
   \<and> redact_sensitive_values (JDict [(''private_key'', JStr ''hunter2'')])
      = JDict [(''private_key'', JStr ''{private_key}'')]"
  by (simp add: sensitive_key_def lower_def to_lower_def is_upper_def placeholder_value_def
      to_placeholder_name_def is_alnum_def is_lower_def is_digit_def strip_chars_def)

section \<open>Properties of substitution\<close>

lemma tokens_ok_skip: "CHR ''{'' \<notin> set n \<Longrightarrow> tokens_ok T (n @ r) = tokens_ok T r"
  by (induction n) auto

lemma tokens_ok_drop: "tokens_ok T s \<Longrightarrow> tokens_ok T (drop n s)"
proof (induction s arbitrary: n)
  case Nil
  then show ?case by simp
next
  case (Cons c cs)
  then show ?case by (cases n) auto
qed

lemma split_at_close:
  "CHR ''}'' \<in> set cs \<Longrightarrow>
   cs = takeWhile (\<lambda>x. x \<noteq> CHR ''}'') cs @ CHR ''}'' # tl (dropWhile (\<lambda>x. x \<noteq> CHR ''}'') cs)"
proof -
  assume a: "CHR ''}'' \<in> set cs"
  then have "dropWhile (\<lambda>x. x \<noteq> CHR ''}'') cs \<noteq> []" by (simp add: dropWhile_eq_Nil_conv)
  moreover have "hd (dropWhile (\<lambda>x. x \<noteq> CHR ''}'') cs) = CHR ''}''"
    using a hd_dropWhile [of "\<lambda>x. x \<noteq> CHR ''}''" cs] dropWhile_eq_Nil_conv [of "\<lambda>x. x \<noteq> CHR ''}''" cs]
    by auto
  ultimately have "dropWhile (\<lambda>x. x \<noteq> CHR ''}'') cs = CHR ''}'' # tl (dropWhile (\<lambda>x. x \<noteq> CHR ''}'') cs)"
    by (cases "dropWhile (\<lambda>x. x \<noteq> CHR ''}'') cs") auto
  then show ?thesis
    using takeWhile_dropWhile_id [of "\<lambda>x. x \<noteq> CHR ''}''" cs] by simp
qed

lemma tokens_ok_init:
  "set (find_tokens s) \<subseteq> T \<Longrightarrow> \<forall>n \<in> T. CHR ''{'' \<notin> set n \<Longrightarrow> tokens_ok T s"
proof (induction s rule: find_tokens.induct)
  case 1
  then show ?case by simp
next
  case (2 c cs)
  let ?n = "takeWhile (\<lambda>x. x \<noteq> CHR ''}'') cs"
  let ?r = "tl (dropWhile (\<lambda>x. x \<noteq> CHR ''}'') cs)"
  show ?case
  proof (cases "c = CHR ''{'' \<and> CHR ''}'' \<in> set cs \<and> ?n \<noteq> []")
    case True
    with 2(3) have nT: "?n \<in> T" and sub: "set (find_tokens ?r) \<subseteq> T" by auto
    from nT 2(4) have nb: "CHR ''{'' \<notin> set ?n" by blast
    from 2(1) [OF True sub 2(4)] have "tokens_ok T ?r" .
    then have "tokens_ok T (CHR ''}'' # ?r)" by simp
    then have "tokens_ok T (?n @ CHR ''}'' # ?r)" using nb by (simp add: tokens_ok_skip)
    then have "tokens_ok T cs" using split_at_close True by metis
    then show ?thesis using nb nT by simp
  next
    case False
    with 2(3) have "set (find_tokens cs) \<subseteq> T" by auto
    from 2(2) [OF False this 2(4)] have "tokens_ok T cs" .
    then show ?thesis using False by auto
  qed
qed

lemma replace_token_no_close:
  "CHR ''}'' \<notin> set s \<Longrightarrow> replace_token k new s = s"
proof (induction k new s rule: replace_token.induct)
  case (1 k new)
  then show ?case by simp
next
  case (2 k new c cs)
  have "\<not> prefix (CHR ''{'' # k @ ''}'') (c # cs)"
  proof
    assume "prefix (CHR ''{'' # k @ ''}'') (c # cs)"
    then have "set (CHR ''{'' # k @ ''}'') \<subseteq> set (c # cs)" by (rule set_mono_prefix)
    with 2(3) show False by auto
  qed
  moreover from 2(3) have "CHR ''}'' \<notin> set cs" by simp
  ultimately show ?case using 2(2) by auto
qed

lemma replace_token_skip:
  "CHR ''{'' \<notin> set n \<Longrightarrow>
   replace_token k new (n @ CHR ''}'' # r) = n @ CHR ''}'' # replace_token k new r"
  by (induction n) auto

lemma tokens_ok_replace:
  "tokens_ok T s \<Longrightarrow> CHR ''{'' \<notin> set new \<Longrightarrow> tokens_ok (T - {k}) (replace_token k new s)"
proof (induction k new s rule: replace_token.induct)
  case (1 k new)
  then show ?case by simp
next
  case (2 k new c cs)
  show ?case
  proof (cases "prefix (CHR ''{'' # k @ ''}'') (c # cs)")
    case True
    from 2(3) have "tokens_ok T cs" by simp
    then have "tokens_ok T (drop (length k + 1) cs)" by (rule tokens_ok_drop)
    from 2(1) [OF True this 2(4)] 2(4) True show ?thesis
      by (simp add: tokens_ok_skip)
  next
    case False
    from 2(3) have ok: "tokens_ok T cs" by simp
    from 2(2) [OF False ok 2(4)] have ih: "tokens_ok (T - {k}) (replace_token k new cs)" .
    let ?n = "takeWhile (\<lambda>x. x \<noteq> CHR ''}'') cs"
    let ?r = "tl (dropWhile (\<lambda>x. x \<noteq> CHR ''}'') cs)"
    have "CHR ''{'' \<notin> set (takeWhile (\<lambda>x. x \<noteq> CHR ''}'') (replace_token k new cs))
         \<and> (takeWhile (\<lambda>x. x \<noteq> CHR ''}'') (replace_token k new cs) = []
            \<or> takeWhile (\<lambda>x. x \<noteq> CHR ''}'') (replace_token k new cs) \<in> T - {k})"
      if c: "c = CHR ''{''" and cl: "CHR ''}'' \<in> set (replace_token k new cs)"
    proof -
      have incs: "CHR ''}'' \<in> set cs"
        using cl replace_token_no_close [of cs k new] by metis
      with 2(3) c have nb: "CHR ''{'' \<notin> set ?n" and nT: "?n = [] \<or> ?n \<in> T" by auto
      have cs: "cs = ?n @ CHR ''}'' # ?r" using incs by (rule split_at_close)
      have "replace_token k new cs = ?n @ CHR ''}'' # replace_token k new ?r"
        using replace_token_skip [OF nb, of k new ?r] cs by simp
      moreover have "\<forall>x \<in> set ?n. x \<noteq> CHR ''}''"
        by (auto dest: set_takeWhileD)
      ultimately have tw: "takeWhile (\<lambda>x. x \<noteq> CHR ''}'') (replace_token k new cs) = ?n"
        by (simp add: takeWhile_append2 takeWhile_tail)
      have "?n \<noteq> k"
      proof
        assume "?n = k"
        with cs have "cs = k @ CHR ''}'' # ?r" by simp
        then have "prefix (CHR ''{'' # k @ ''}'') (c # cs)"
          using c by (metis Cons_prefix_Cons append.assoc append_Cons append_Nil prefixI)
        with False show False by simp
      qed
      with nb nT tw show ?thesis by auto
    qed
    with ih False show ?thesis by auto
  qed
qed

lemma tokens_ok_fold:
  "tokens_ok T s \<Longrightarrow>
   \<forall>name \<in> set names. \<forall>v. map_of vars name = Some v \<longrightarrow> CHR ''{'' \<notin> set (py_str repr v) \<Longrightarrow>
   tokens_ok (T - set names \<inter> fst ` set vars)
     (foldl (\<lambda>result var_name.
        case map_of vars var_name of
          Some v \<Rightarrow> replace_token var_name (py_str repr v) result
        | None \<Rightarrow> result) s names)"
proof (induction names arbitrary: s T)
  case Nil
  then show ?case by simp
next
  case (Cons name names)
  from Cons.prems(2)
  have rest: "\<forall>name \<in> set names. \<forall>v. map_of vars name = Some v \<longrightarrow> CHR ''{'' \<notin> set (py_str repr v)"
    by simp
  show ?case
  proof (cases "map_of vars name")
    case None
    then have "name \<notin> fst ` set vars" by (simp add: map_of_eq_None_iff)
    then have "T - set (name # names) \<inter> fst ` set vars = T - set names \<inter> fst ` set vars" by auto
    with Cons.IH [OF Cons.prems(1) rest] None show ?thesis by simp
  next
    case (Some v)
    then have "(name, v) \<in> set vars" by (rule map_of_SomeD)
    from Cons.prems(2) Some have "CHR ''{'' \<notin> set (py_str repr v)" by simp
    with Cons.prems(1) have "tokens_ok (T - {name}) (replace_token name (py_str repr v) s)"
      by (rule tokens_ok_replace)
    from Cons.IH [OF this rest]
    have "tokens_ok (T - {name} - set names \<inter> fst ` set vars)
     (foldl (\<lambda>result var_name.
        case map_of vars var_name of
          Some v \<Rightarrow> replace_token var_name (py_str repr v) result
        | None \<Rightarrow> result) (replace_token name (py_str repr v) s) names)" .
    moreover have "name \<in> fst ` set vars" using \<open>(name, v) \<in> set vars\<close> by force
    then have "T - {name} - set names \<inter> fst ` set vars = T - set (name # names) \<inter> fst ` set vars"
      by auto
    ultimately show ?thesis using Some by simp
  qed
qed

lemma tokens_ok_empty: "tokens_ok {} s \<Longrightarrow> find_tokens s = []"
  by (induction s rule: find_tokens.induct) auto

lemma substitute_str_closed:
  assumes "\<forall>k \<in> set (find_tokens s). k \<in> fst ` set vars \<and> CHR ''{'' \<notin> set k
      \<and> (\<forall>v. map_of vars k = Some v \<longrightarrow> CHR ''{'' \<notin> set (py_str repr v))"
  shows "find_tokens (substitute_str repr vars s) = []"
proof -
  have "\<forall>n \<in> set (find_tokens s). CHR ''{'' \<notin> set n"
    using assms by blast
  then have "tokens_ok (set (find_tokens s)) s"
    by (intro tokens_ok_init) auto
  moreover have "\<forall>name \<in> set (find_tokens s).
      \<forall>v. map_of vars name = Some v \<longrightarrow> CHR ''{'' \<notin> set (py_str repr v)"
    using assms by blast
  ultimately have "tokens_ok (set (find_tokens s) - set (find_tokens s) \<inter> fst ` set vars)
      (substitute_str repr vars s)"
    unfolding substitute_str_def by (rule tokens_ok_fold)
  moreover have "set (find_tokens s) - set (find_tokens s) \<inter> fst ` set vars = {}"
    using assms by blast
  ultimately show ?thesis by (simp add: tokens_ok_empty)
qed

lemma substitute_variables_closed:
  "\<forall>k \<in> set (required_tokens obj). k \<in> fst ` set vars \<and> CHR ''{'' \<notin> set k
      \<and> (\<forall>v. map_of vars k = Some v \<longrightarrow> CHR ''{'' \<notin> set (py_str repr v)) \<Longrightarrow>
   required_tokens (substitute_variables repr vars obj) = []"
proof (induction repr vars obj rule: substitute_variables.induct)
  case (1 repr vars s)
  then have "\<forall>k \<in> set (find_tokens s). k \<in> fst ` set vars \<and> CHR ''{'' \<notin> set k
      \<and> (\<forall>v. map_of vars k = Some v \<longrightarrow> CHR ''{'' \<notin> set (py_str repr v))"
    by simp
  from substitute_str_closed [OF this] show ?case by simp
next
  case (2 repr vars kvs)
  have "required_tokens (substitute_variables repr vars v) = []" if "(k, v) \<in> set kvs" for k v
  proof -
    have "set (required_tokens v) \<subseteq> set (required_tokens (JDict kvs))"
      using that by fastforce
    with 2(2) have "\<forall>k \<in> set (required_tokens v). k \<in> fst ` set vars \<and> CHR ''{'' \<notin> set k
      \<and> (\<forall>v. map_of vars k = Some v \<longrightarrow> CHR ''{'' \<notin> set (py_str repr v))"
      by blast
    from 2(1) [OF that refl this] show ?thesis .
  qed
  then show ?case by (auto simp: comp_def case_prod_beta)
next
  case (3 repr vars xs)
  have "required_tokens (substitute_variables repr vars x) = []" if "x \<in> set xs" for x
  proof -
    have "set (required_tokens x) \<subseteq> set (required_tokens (JList xs))"
      using that by auto
    with 3(2) have "\<forall>k \<in> set (required_tokens x). k \<in> fst ` set vars \<and> CHR ''{'' \<notin> set k
      \<and> (\<forall>v. map_of vars k = Some v \<longrightarrow> CHR ''{'' \<notin> set (py_str repr v))"
      by blast
    from 3(1) [OF that this] show ?thesis .
  qed
  then show ?case by (auto simp: comp_def)
qed simp_all

text \<open>
  Claim C5, as amended. If every name referenced by a token of the request is a key of the
  store, holds no opening brace, and has a stringified value in the store that holds none
  either, then the substituted request holds no \<^verbatim>\<open>{name}\<close> token at all. Nothing is
  asked of the entries of the store that the request does not reference.
\<close>

theorem substitute_variables_closure:
  assumes "\<forall>k \<in> set (find_required_variables req).
      k \<in> fst ` set vars \<and> CHR ''{'' \<notin> set k
      \<and> (\<forall>v. map_of vars k = Some v \<longrightarrow> CHR ''{'' \<notin> set (py_str repr v))"
  shows "find_required_variables (substitute_variables repr vars req) = []"
  using assms substitute_variables_closed [of req vars repr]
  by (simp add: find_required_variables_def)

theorem substitute_variables_closure_witness:
  "find_required_variables
      (JDict [(''path'', JStr ''/clusters/{cluster_1}/nodes/{n}''), (''tags'', JList [JStr ''{n}''])])
     = [''cluster_1'', ''n'']
   \<and> map_of [(''cluster_1'', JStr ''c-123''), (''n'', JInt 7), (''api_token'', JStr ''{api_token}'')]
        ''cluster_1'' = Some (JStr ''c-123'')
   \<and> map_of [(''cluster_1'', JStr ''c-123''), (''n'', JInt 7), (''api_token'', JStr ''{api_token}'')]
        ''n'' = Some (JInt 7)
   \<and> CHR ''{'' \<notin> set ''cluster_1'' \<and> CHR ''{'' \<notin> set ''n''
   \<and> CHR ''{'' \<notin> set (py_str (\<lambda>_. []) (JStr ''c-123''))
   \<and> CHR ''{'' \<notin> set (py_str (\<lambda>_. []) (JInt 7))
   \<and> find_required_variables
        (substitute_variables (\<lambda>_. [])
          [(''cluster_1'', JStr ''c-123''), (''n'', JInt 7), (''api_token'', JStr ''{api_token}'')]
          (JDict [(''path'', JStr ''/clusters/{cluster_1}/nodes/{n}''), (''tags'', JList [JStr ''{n}''])]))
      = []
   \<and> substitute_variables (\<lambda>_. [])
          [(''cluster_1'', JStr ''c-123''), (''n'', JInt 7), (''api_token'', JStr ''{api_token}'')]
          (JDict [(''path'', JStr ''/clusters/{cluster_1}/nodes/{n}''), (''tags'', JList [JStr ''{n}''])])
      = JDict [(''path'', JStr ''/clusters/c-123/nodes/7''), (''tags'', JList [JStr ''7''])]"
proof -
  have a: "find_required_variables
      (JDict [(''path'', JStr ''/clusters/{cluster_1}/nodes/{n}''), (''tags'', JList [JStr ''{n}''])])
     = [''cluster_1'', ''n'']"
    by (simp add: find_required_variables_def)
  have b: "CHR ''{'' \<notin> set (py_str (\<lambda>_. []) (JStr ''c-123''))
      \<and> CHR ''{'' \<notin> set (py_str (\<lambda>_. []) (JInt 7))"
    by (simp add: str_int_def str_nat.simps)
  have c: "substitute_variables (\<lambda>_. [])
          [(''cluster_1'', JStr ''c-123''), (''n'', JInt 7), (''api_token'', JStr ''{api_token}'')]
          (JDict [(''path'', JStr ''/clusters/{cluster_1}/nodes/{n}''), (''tags'', JList [JStr ''{n}''])])
      = JDict [(''path'', JStr ''/clusters/c-123/nodes/7''), (''tags'', JList [JStr ''7''])]"
    by (simp add: substitute_str_def str_int_def str_nat.simps)
  have h: "\<forall>k \<in> set (find_required_variables
        (JDict [(''path'', JStr ''/clusters/{cluster_1}/nodes/{n}''), (''tags'', JList [JStr ''{n}''])])).
      k \<in> fst ` set [(''cluster_1'', JStr ''c-123''), (''n'', JInt 7), (''api_token'', JStr ''{api_token}'')]
      \<and> CHR ''{'' \<notin> set k
      \<and> (\<forall>v. map_of [(''cluster_1'', JStr ''c-123''), (''n'', JInt 7), (''api_token'', JStr ''{api_token}'')] k
            = Some v \<longrightarrow> CHR ''{'' \<notin> set (py_str (\<lambda>_. []) v))"
    using b by (simp add: a)
  show ?thesis
    using substitute_variables_closure [OF h] a b c by simp
qed

text \<open>
  Claim C5 as stated fails when a value of the store is itself a token: the store
  \<^verbatim>\<open>{"api_token": "{api_token}"}\<close> (what a redacted store holds) leaves the request
  as it was, with its token for a name of the store.
\<close>

theorem substitute_variables_reintroduces_counterexample:
  "set (find_required_variables (JDict [(''auth'', JStr ''Bearer {api_token}'')]))
     \<subseteq> fst ` set [(''api_token'', JStr ''{api_token}'')]
   \<and> substitute_variables (\<lambda>_. []) [(''api_token'', JStr ''{api_token}'')]
        (JDict [(''auth'', JStr ''Bearer {api_token}'')])
      = JDict [(''auth'', JStr ''Bearer {api_token}'')]
   \<and> find_required_variables
        (substitute_variables (\<lambda>_. []) [(''api_token'', JStr ''{api_token}'')]
          (JDict [(''auth'', JStr ''Bearer {api_token}'')]))
      = [''api_token'']
   \<and> ''api_token'' \<in> fst ` set [(''api_token'', JStr ''{api_token}'')]"
  by (simp add: find_required_variables_def substitute_str_def)

section \<open>Properties of the condition evaluator\<close>

lemma walk_keys_addressed: "walk_keys v ks = addressed v (map PKey ks)"
  by (induction v ks rule: walk_keys.induct) (auto split: json.splits option.splits)

lemma split_eq_Cons_no:
  "\<not> prefix ''=='' (c # cs) \<Longrightarrow>
   split_eq (c # cs) = (case split_eq cs of None \<Rightarrow> None | Some (l, r) \<Rightarrow> Some (c # l, r))"
  by (simp only: split_eq.simps if_False)

lemma split_eq_Some_iff:
  "split_eq s = Some (l, r) \<longleftrightarrow>
     s = l @ ''=='' @ r \<and> (\<forall>l' r'. s = l' @ ''=='' @ r' \<longrightarrow> length l \<le> length l')"
proof (induction s arbitrary: l r)
  case Nil
  then show ?case by simp
next
  case (Cons c cs)
  show ?case
  proof (cases "prefix ''=='' (c # cs)")
    case True
    then obtain t where t: "c # cs = ''=='' @ t" by (auto simp: prefix_def)
    then have d: "drop 1 cs = t" by simp
    have "split_eq (c # cs) = Some ([], t)" by (simp only: split_eq.simps True if_True d)
    moreover have "(c # cs = l @ ''=='' @ r \<and> (\<forall>l' r'. c # cs = l' @ ''=='' @ r' \<longrightarrow> length l \<le> length l'))
        \<longleftrightarrow> l = [] \<and> r = t"
    proof
      assume a: "c # cs = l @ ''=='' @ r \<and> (\<forall>l' r'. c # cs = l' @ ''=='' @ r' \<longrightarrow> length l \<le> length l')"
      then have "length l \<le> length ([] :: string)" using t by (metis append_Nil)
      then have "l = []" by simp
      with a t show "l = [] \<and> r = t" by simp
    next
      assume "l = [] \<and> r = t"
      with t show "c # cs = l @ ''=='' @ r \<and> (\<forall>l' r'. c # cs = l' @ ''=='' @ r' \<longrightarrow> length l \<le> length l')"
        by simp
    qed
    ultimately show ?thesis by auto
  next
    case False
    have ne: "l' \<noteq> []" if "c # cs = l' @ ''=='' @ r'" for l' r'
      using that False by (auto simp: prefix_def)
    show ?thesis
    proof
      assume "split_eq (c # cs) = Some (l, r)"
      with split_eq_Cons_no [OF False] obtain l0 where l0: "split_eq cs = Some (l0, r)" "l = c # l0"
        by (cases "split_eq cs") (auto simp del: split_eq.simps)
      from l0(1) Cons.IH have cs: "cs = l0 @ ''=='' @ r"
        and mn: "\<forall>l' r'. cs = l' @ ''=='' @ r' \<longrightarrow> length l0 \<le> length l'" by auto
      have "length l \<le> length l'" if d: "c # cs = l' @ ''=='' @ r'" for l' r'
      proof -
        from ne [OF d] obtain l'' where l'': "l' = c # l''" using d by (cases l') auto
        with d have "cs = l'' @ ''=='' @ r'" by simp
        with mn have "length l0 \<le> length l''" by blast
        with l0(2) l'' show ?thesis by simp
      qed
      with cs l0(2) show "c # cs = l @ ''=='' @ r \<and> (\<forall>l' r'. c # cs = l' @ ''=='' @ r' \<longrightarrow> length l \<le> length l')"
        by simp
    next
      assume a: "c # cs = l @ ''=='' @ r \<and> (\<forall>l' r'. c # cs = l' @ ''=='' @ r' \<longrightarrow> length l \<le> length l')"
      then have "l \<noteq> []" using ne by blast
      with a obtain l0 where l0: "l = c # l0" by (cases l) auto
      with a have cs: "cs = l0 @ ''=='' @ r" by simp
      have "length l0 \<le> length l'" if d: "cs = l' @ ''=='' @ r'" for l' r'
      proof -
        from d have "c # cs = (c # l') @ ''=='' @ r'" by simp
        with a have "length l \<le> length (c # l')" by blast
        with l0 show ?thesis by simp
      qed
      with cs Cons.IH have "split_eq cs = Some (l0, r)" by blast
      with split_eq_Cons_no [OF False] l0 show "split_eq (c # cs) = Some (l, r)"
        by (simp del: split_eq.simps)
    qed
  qed
qed

lemma dropWhile_strip: "dropWhile P (rev (dropWhile P (rev (dropWhile P s)))) = rev (dropWhile P (rev (dropWhile P s)))"
proof -
  let ?t = "dropWhile P s"
  let ?u = "rev (dropWhile P (rev ?t))"
  show "dropWhile P ?u = ?u"
  proof (cases "?u = []")
    case True
    show ?thesis by (simp only: True dropWhile.simps)
  next
    case False
    have tn: "?t \<noteq> []"
    proof
      assume e: "?t = []"
      have "?u = []" by (simp only: e rev.simps dropWhile.simps)
      with False show False by simp
    qed
    from tn have nP: "\<not> P (hd ?t)" by (rule hd_dropWhile)
    have "prefix ?u ?t"
      by (metis rev_rev_ident suffix_dropWhile suffix_to_prefix)
    with False have "hd ?u = hd ?t" by (metis hd_append2 prefix_def)
    with nP False show ?thesis by (simp add: dropWhile_eq_self_iff)
  qed
qed

lemma strip_idem: "strip (strip s) = strip s"
proof -
  have 1: "dropWhile is_space (strip s) = strip s"
    unfolding strip_def strip_with_def by (rule dropWhile_strip)
  have 2: "dropWhile is_space (rev (strip s)) = rev (strip s)"
    unfolding strip_def strip_with_def by (simp add: dropWhile_idem)
  show ?thesis
    by (subst (1) strip_def, subst (1) strip_with_def) (simp only: 1 2 rev_rev_ident)
qed

text \<open>
  Claim C8, as amended. The evaluator is a total function, so it never raises. It is true
  on the empty expression. On any other expression it is true exactly when the stripped
  expression holds \<^verbatim>\<open>==\<close> and, with \<open>l\<close> the text before the first \<^verbatim>\<open>==\<close> and \<open>r\<close>
  the text behind it, \<open>l\<close> stripped is \<^verbatim>\<open>body.\<close> followed by a path whose keys resolve
  through the nested mappings of the body to a value whose \<^verbatim>\<open>str\<close> is the literal of
  \<open>r\<close>. A further \<^verbatim>\<open>==\<close> belongs to the literal.
\<close>

theorem evaluate_expect_true_iff:
  "evaluate_expect repr body expect \<longleftrightarrow>
     expect = [] \<or>
     (\<exists>l r path v.
        strip expect = l @ ''=='' @ r
      \<and> (\<forall>l' r'. strip expect = l' @ ''=='' @ r' \<longrightarrow> length l \<le> length l')
      \<and> strip l = ''body.'' @ path
      \<and> addressed body (map PKey (split_on CHR ''.'' path)) = Some v
      \<and> py_str repr v = literal_of r)"
proof (cases "expect = []")
  case True
  then show ?thesis by (simp add: evaluate_expect_def)
next
  case False
  show ?thesis
  proof (cases "split_eq (strip expect)")
    case None
    have "\<not> (\<exists>l r. strip expect = l @ ''=='' @ r)"
    proof
      assume "\<exists>l r. strip expect = l @ ''=='' @ r"
      then have ex: "\<exists>n. \<exists>l r. strip expect = l @ ''=='' @ r \<and> length l = n" by blast
      define m where "m = (LEAST n. \<exists>l r. strip expect = l @ ''=='' @ r \<and> length l = n)"
      from LeastI_ex [OF ex] obtain l r where lr: "strip expect = l @ ''=='' @ r" "length l = m"
        unfolding m_def by blast
      have "length l \<le> length l'" if "strip expect = l' @ ''=='' @ r'" for l' r'
        using that lr(2) unfolding m_def by (auto intro: Least_le)
      with lr(1) have "split_eq (strip expect) = Some (l, r)"
        by (simp add: split_eq_Some_iff)
      with None show False by simp
    qed
    with None False show ?thesis by (auto simp: evaluate_expect_def)
  next
    case (Some lr)
    obtain l r where lr: "lr = (l, r)" by (cases lr)
    with Some have sp: "split_eq (strip expect) = Some (l, r)" by simp
    then have dec: "strip expect = l @ ''=='' @ r"
      and mn: "\<forall>l' r'. strip expect = l' @ ''=='' @ r' \<longrightarrow> length l \<le> length l'"
      by (simp_all add: split_eq_Some_iff)
    have uniq: "l' = l \<and> r' = r"
      if "strip expect = l' @ ''=='' @ r'"
        "\<forall>l'' r''. strip expect = l'' @ ''=='' @ r'' \<longrightarrow> length l' \<le> length l''" for l' r'
    proof -
      from that have "split_eq (strip expect) = Some (l', r')" by (simp add: split_eq_Some_iff)
      with sp show ?thesis by simp
    qed
    have ev: "evaluate_expect repr body expect \<longleftrightarrow>
        prefix ''body.'' (strip l)
        \<and> (\<exists>v. addressed body (map PKey (split_on CHR ''.'' (drop 5 (strip l)))) = Some v
               \<and> py_str repr v = literal_of r)"
      using False sp
      by (auto simp: evaluate_expect_def Let_def walk_keys_addressed literal_of_def strip_idem
          split: option.splits)
    show ?thesis
    proof
      assume "evaluate_expect repr body expect"
      with ev obtain v where p: "prefix ''body.'' (strip l)"
        and v: "addressed body (map PKey (split_on CHR ''.'' (drop 5 (strip l)))) = Some v"
          "py_str repr v = literal_of r" by blast
      from p have "strip l = ''body.'' @ drop 5 (strip l)" by (auto simp: prefix_def)
      with dec mn v show "expect = [] \<or>
     (\<exists>l r path v.
        strip expect = l @ ''=='' @ r
      \<and> (\<forall>l' r'. strip expect = l' @ ''=='' @ r' \<longrightarrow> length l \<le> length l')
      \<and> strip l = ''body.'' @ path
      \<and> addressed body (map PKey (split_on CHR ''.'' path)) = Some v
      \<and> py_str repr v = literal_of r)" by blast
    next
      assume "expect = [] \<or>
     (\<exists>l r path v.
        strip expect = l @ ''=='' @ r
      \<and> (\<forall>l' r'. strip expect = l' @ ''=='' @ r' \<longrightarrow> length l \<le> length l')
      \<and> strip l = ''body.'' @ path
      \<and> addressed body (map PKey (split_on CHR ''.'' path)) = Some v
      \<and> py_str repr v = literal_of r)"
      with False obtain l' r' path v where d: "strip expect = l' @ ''=='' @ r'"
        "\<forall>l'' r''. strip expect = l'' @ ''=='' @ r'' \<longrightarrow> length l' \<le> length l''"
        and rest: "strip l' = ''body.'' @ path"
          "addressed body (map PKey (split_on CHR ''.'' path)) = Some v"
          "py_str repr v = literal_of r'" by blast
      from uniq [OF d] have "l' = l" "r' = r" by simp_all
      with rest ev show "evaluate_expect repr body expect" by (auto simp: prefix_def)
    qed
  qed
qed

theorem evaluate_expect_true_iff_witness:
  "evaluate_expect (\<lambda>_. []) (JDict [(''cluster'', JDict [(''state'', JStr ''ACTIVE'')])])
      ''body.cluster.state == ACTIVE''
   \<and> (\<exists>l r path v.
        strip ''body.cluster.state == ACTIVE'' = l @ ''=='' @ r
      \<and> strip l = ''body.'' @ path
      \<and> addressed (JDict [(''cluster'', JDict [(''state'', JStr ''ACTIVE'')])])
            (map PKey (split_on CHR ''.'' path)) = Some v
      \<and> py_str (\<lambda>_. []) v = literal_of r)
   \<and> \<not> evaluate_expect (\<lambda>_. []) (JDict [(''cluster'', JDict [(''state'', JStr ''ACTIVE'')])])
      ''body.cluster.state == PAUSED''
   \<and> \<not> evaluate_expect (\<lambda>_. []) (JDict [(''cluster'', JDict [(''state'', JStr ''ACTIVE'')])])
      ''cluster.state == ACTIVE''
   \<and> evaluate_expect (\<lambda>_. []) (JDict [(''cluster'', JDict [(''state'', JStr ''ACTIVE'')])])
      (CHR 0x85 # ''body.cluster.state == ACTIVE'' @ [CHR 0xA0, CHR 0x1F])"
proof -
  have t: "evaluate_expect (\<lambda>_. []) (JDict [(''cluster'', JDict [(''state'', JStr ''ACTIVE'')])])
      ''body.cluster.state == ACTIVE''"
    by (simp add: evaluate_expect_def strip_def strip_with_def is_space_def strip_chars_def)
  have f1: "\<not> evaluate_expect (\<lambda>_. []) (JDict [(''cluster'', JDict [(''state'', JStr ''ACTIVE'')])])
      ''body.cluster.state == PAUSED''"
    by (simp add: evaluate_expect_def strip_def strip_with_def is_space_def strip_chars_def)
  have f2: "\<not> evaluate_expect (\<lambda>_. []) (JDict [(''cluster'', JDict [(''state'', JStr ''ACTIVE'')])])
      ''cluster.state == ACTIVE''"
    by (simp add: evaluate_expect_def strip_def strip_with_def is_space_def strip_chars_def)
  have t2: "evaluate_expect (\<lambda>_. []) (JDict [(''cluster'', JDict [(''state'', JStr ''ACTIVE'')])])
      (CHR 0x85 # ''body.cluster.state == ACTIVE'' @ [CHR 0xA0, CHR 0x1F])"
    by (simp add: evaluate_expect_def strip_def strip_with_def is_space_def strip_chars_def)
  from t evaluate_expect_true_iff [of "\<lambda>_. []" "JDict [(''cluster'', JDict [(''state'', JStr ''ACTIVE'')])]"
      "''body.cluster.state == ACTIVE''"]
  have "\<exists>l r path v.
        strip ''body.cluster.state == ACTIVE'' = l @ ''=='' @ r
      \<and> strip l = ''body.'' @ path
      \<and> addressed (JDict [(''cluster'', JDict [(''state'', JStr ''ACTIVE'')])])
            (map PKey (split_on CHR ''.'' path)) = Some v
      \<and> py_str (\<lambda>_. []) v = literal_of r"
    by blast
  with t f1 f2 t2 show ?thesis by blast
qed

text \<open>
  Claim C8 as stated fails twice: the empty expression has no \<^verbatim>\<open>==\<close> and is true
  (\<^verbatim>\<open>if not expect: return True\<close>); an expression with two \<^verbatim>\<open>==\<close> is split at the
  first (\<^verbatim>\<open>split("==", 1)\<close>) and is true when the value is the rest.
\<close>

theorem evaluate_expect_empty_counterexample:
  "\<not> contains ''=='' []
   \<and> evaluate_expect (\<lambda>_. []) (JDict [(''state'', JStr ''ACTIVE'')]) []
   \<and> split_eq ''body.a == x == y'' = Some (''body.a '', '' x == y'')
   \<and> contains ''=='' '' x == y''
   \<and> evaluate_expect (\<lambda>_. []) (JDict [(''a'', JStr ''x == y'')]) ''body.a == x == y''"
  by (simp add: evaluate_expect_def strip_def strip_with_def is_space_def strip_chars_def)

section \<open>Properties of \<^verbatim>\<open>execute\<close>\<close>

































end
